(* ===== verification/Ingest_Prelude.thy ===== *)
theory Ingest_Prelude
  imports Main "HOL-Library.Word" "HOL-Library.Sublist"
begin

text \<open>
  Shared vocabulary of the development.  A Go function that may mutate the outside world,
  return an error or fail to return is a value of \<open>('s, 'e, 'a) go\<close>: it maps a
  state to \<open>None\<close> (it does not return) or to the next state with an error (\<open>Inl\<close>)
  or a result (\<open>Inr\<close>).  The idiom \<open>v, err := f(...); if err != nil { return err }\<close>
  is \<open>bindG\<close>, error wrapping by \<open>fmt.Errorf("...: %w", err)\<close> is \<open>wrapG\<close>.
  The theory also holds the generic lemmas on lists and sums which the components share.
\<close>

section \<open>Computations of the Go program\<close>

type_synonym ('s, 'e, 'a) go = "'s \<Rightarrow> ('s \<times> ('e + 'a)) option"

type_synonym u64 = "64 word"

named_theorems go_simps \<open>unfolding rules of the computation combinators\<close>
named_theorems status_simps \<open>the status and classification literals and their distinctness\<close>
named_theorems tables_simps \<open>effects of the SQL statements on the tables\<close>

definition okG :: "'a \<Rightarrow> ('s, 'e, 'a) go" where
  "okG a s = Some (s, Inr a)"

definition failG :: "'e \<Rightarrow> ('s, 'e, 'a) go" where
  "failG e s = Some (s, Inl e)"

definition bindG :: "('s, 'e, 'a) go \<Rightarrow> ('a \<Rightarrow> ('s, 'e, 'b) go) \<Rightarrow> ('s, 'e, 'b) go" where
  "bindG m k s =
     (case m s of
        None \<Rightarrow> None
      | Some (s', r) \<Rightarrow> (case r of Inl e \<Rightarrow> Some (s', Inl e) | Inr a \<Rightarrow> k a s'))"

definition wrapG :: "('e \<Rightarrow> 'f) \<Rightarrow> ('s, 'e, 'a) go \<Rightarrow> ('s, 'f, 'a) go" where
  "wrapG f m s = map_option (map_prod id (map_sum f id)) (m s)"

lemma okG_apply [go_simps, simp]: "okG a s = Some (s, Inr a)"
  by (simp add: okG_def)

lemma failG_apply [go_simps, simp]: "failG e s = Some (s, Inl e)"
  by (simp add: failG_def)

lemma bindG_okG [simp]: "bindG (okG a) k = k a"
  by (rule ext) (simp add: bindG_def)

lemma bindG_failG [simp]: "bindG (failG e) k = failG e"
  by (rule ext) (simp add: bindG_def)

lemma bindG_assoc: "bindG (bindG m k) l = bindG m (\<lambda>a. bindG (k a) l)"
  by (rule ext) (simp add: bindG_def split: option.split sum.split prod.split)

lemma bindG_mono [partial_function_mono]:
  assumes "mono_option (\<lambda>f. m f s)" and "\<And>a s'. mono_option (\<lambda>f. k a f s')"
  shows "mono_option (\<lambda>f. bindG (m f) (\<lambda>a. k a f) s)"
proof -
  have "bindG (m f) (\<lambda>a. k a f) s =
      Option.bind (m f s) (\<lambda>x. case x of (s', r) \<Rightarrow>
        (case r of Inl e \<Rightarrow> Some (s', Inl e) | Inr a \<Rightarrow> k a f s'))" for f
    by (simp add: bindG_def split: option.split)
  moreover have "mono_option (\<lambda>f. case x of (s', r) \<Rightarrow>
        (case r of Inl e \<Rightarrow> Some (s', Inl e) | Inr a \<Rightarrow> k a f s'))" for x
    using assms(2) by (cases x; cases "snd x") (auto simp: monotone_on_def flat_ord_def)
  ultimately show ?thesis
    using assms(1) by (simp add: bind_mono)
qed

lemma bindG_InrE:
  assumes "bindG m k s = Some (s', Inr b)"
  obtains s1 a where "m s = Some (s1, Inr a)" and "k a s1 = Some (s', Inr b)"
  using assms by (auto simp: bindG_def split: option.splits sum.splits prod.splits)

section \<open>Lists\<close>

text \<open>The least element of a list under a comparison, the first of several.\<close>

fun least_by :: "('a \<Rightarrow> 'a \<Rightarrow> bool) \<Rightarrow> 'a list \<Rightarrow> 'a option" where
  "least_by le [] = None"
| "least_by le (x # xs) =
     (case least_by le xs of
        None \<Rightarrow> Some x
      | Some y \<Rightarrow> Some (if le x y then x else y))"

lemma least_by_None_iff [simp]: "least_by le xs = None \<longleftrightarrow> xs = []"
  by (cases xs) (auto split: option.split)

lemma least_by_in_set: "least_by le xs = Some x \<Longrightarrow> x \<in> set xs"
  by (induction xs arbitrary: x) (auto split: option.splits if_splits)

lemma least_by_le:
  assumes "least_by le xs = Some x" and "y \<in> set xs"
    and total: "\<And>a b. le a b \<or> le b a"
    and trans: "\<And>a b c. le a b \<Longrightarrow> le b c \<Longrightarrow> le a c"
  shows "le x y"
  using assms(1,2)
proof (induction xs arbitrary: x)
  case Nil
  then show ?case by simp
next
  case (Cons z zs)
  have refl: "le a a" for a using total by blast
  show ?case
  proof (cases "least_by le zs")
    case None
    with Cons.prems refl show ?thesis by simp
  next
    case (Some w)
    from Cons.prems(1) Some have x: "x = (if le z w then z else w)" by simp
    show ?thesis
    proof (cases "y = z")
      case True
      with x refl total show ?thesis by (auto split: if_splits)
    next
      case False
      with Cons.prems(2) have "y \<in> set zs" by simp
      with Cons.IH Some have "le w y" by blast
      with x trans show ?thesis by (auto split: if_splits)
    qed
  qed
qed

lemma length_filter_lt:
  "x \<in> set xs \<Longrightarrow> \<not> P x \<Longrightarrow> length (filter P xs) < length xs"
  by (rule length_filter_less)

lemma filter_comm: "filter P (filter Q xs) = filter Q (filter P xs)"
  by (simp add: conj_commute)

end
