(* ===== verification/Go_Json.thy ===== *)
theory Go_Json
  imports Ingest_Prelude
begin

text \<open>
  What the program uses of Go's \<open>encoding/json\<close>: both \<open>validateEvent\<close>
  (\<open>internal/repository/order_repository.go\<close>) and \<open>normalizePayload\<close>
  (\<open>internal/queue/redis_stream.go\<close>) call \<open>json.Unmarshal\<close> with a target of type
  \<open>map[string]json.RawMessage\<close> only to learn whether the bytes are a JSON object.
  The standard library checks the whole input with a byte-driven scanner first; the scanner
  is written out here as a step function over one byte, with its stack of open brackets and
  its nesting limit.
\<close>

section \<open>The scanner of encoding/json\<close>

datatype json_paren = ParseObjectKey | ParseObjectValue | ParseArrayValue

datatype json_state =
    BeginValue | BeginValueOrEmpty | BeginString | BeginStringOrEmpty
  | EndValue | EndTop
  | InString | InStringEsc | InStringEscU nat
  | Neg | Digits1 | Digit0 | Dot | Dot0 | ExpE | ExpSign | Exp0
  | Literal string
  | JsonError

definition max_nesting_depth :: nat where
  "max_nesting_depth = 10000"

definition is_space :: "char \<Rightarrow> bool" where
  "is_space c \<longleftrightarrow> c = CHR '' '' \<or> c = CHR 0x09 \<or> c = CHR 0x0D \<or> c = CHR 0x0A"

definition is_digit :: "char \<Rightarrow> bool" where
  "is_digit c \<longleftrightarrow> c \<in> set ''0123456789''"

definition is_hex :: "char \<Rightarrow> bool" where
  "is_hex c \<longleftrightarrow> c \<in> set ''0123456789abcdefABCDEF''"

type_synonym json_conf = "json_state \<times> json_paren list"

definition push_paren :: "json_paren \<Rightarrow> json_state \<Rightarrow> json_paren list \<Rightarrow> json_conf" where
  "push_paren p st ps =
     (if length ps < max_nesting_depth then (st, p # ps) else (JsonError, ps))"

definition pop_paren :: "json_paren list \<Rightarrow> json_conf" where
  "pop_paren ps = (case ps of _ # q # qs \<Rightarrow> (EndValue, q # qs) | _ \<Rightarrow> (EndTop, []))"

definition end_value :: "json_paren list \<Rightarrow> char \<Rightarrow> json_conf" where
  "end_value ps c =
     (case ps of
        [] \<Rightarrow> (if is_space c then (EndTop, []) else (JsonError, []))
      | p # rest \<Rightarrow>
          if is_space c then (EndValue, ps)
          else (case p of
              ParseObjectKey \<Rightarrow>
                if c = CHR '':'' then (BeginValue, ParseObjectValue # rest) else (JsonError, ps)
            | ParseObjectValue \<Rightarrow>
                if c = CHR '','' then (BeginString, ParseObjectKey # rest)
                else if c = CHR ''}'' then pop_paren ps
                else (JsonError, ps)
            | ParseArrayValue \<Rightarrow>
                if c = CHR '','' then (BeginValue, ps)
                else if c = CHR '']'' then pop_paren ps
                else (JsonError, ps)))"

definition begin_value :: "json_paren list \<Rightarrow> char \<Rightarrow> json_conf" where
  "begin_value ps c =
     (if is_space c then (BeginValue, ps)
      else if c = CHR ''{'' then push_paren ParseObjectKey BeginStringOrEmpty ps
      else if c = CHR ''['' then push_paren ParseArrayValue BeginValueOrEmpty ps
      else if c = CHR 0x22 then (InString, ps)
      else if c = CHR ''-'' then (Neg, ps)
      else if c = CHR ''0'' then (Digit0, ps)
      else if c = CHR ''t'' then (Literal ''rue'', ps)
      else if c = CHR ''f'' then (Literal ''alse'', ps)
      else if c = CHR ''n'' then (Literal ''ull'', ps)
      else if is_digit c then (Digits1, ps)
      else (JsonError, ps))"

definition digit0 :: "json_paren list \<Rightarrow> char \<Rightarrow> json_conf" where
  "digit0 ps c =
     (if c = CHR ''.'' then (Dot, ps)
      else if c = CHR ''e'' \<or> c = CHR ''E'' then (ExpE, ps)
      else end_value ps c)"

fun json_step :: "json_conf \<Rightarrow> char \<Rightarrow> json_conf" where
  "json_step (BeginValue, ps) c = begin_value ps c"
| "json_step (BeginValueOrEmpty, ps) c =
     (if is_space c then (BeginValueOrEmpty, ps)
      else if c = CHR '']'' then end_value ps c
      else begin_value ps c)"
| "json_step (BeginStringOrEmpty, ps) c =
     (if is_space c then (BeginStringOrEmpty, ps)
      else if c = CHR ''}'' then end_value (ParseObjectValue # tl ps) c
      else if c = CHR 0x22 then (InString, ps)
      else (JsonError, ps))"
| "json_step (BeginString, ps) c =
     (if is_space c then (BeginString, ps)
      else if c = CHR 0x22 then (InString, ps)
      else (JsonError, ps))"
| "json_step (EndValue, ps) c = end_value ps c"
| "json_step (EndTop, ps) c = (if is_space c then (EndTop, ps) else (JsonError, ps))"
| "json_step (InString, ps) c =
     (if c = CHR 0x22 then (EndValue, ps)
      else if c = CHR 0x5C then (InStringEsc, ps)
      else if of_char c < (0x20 :: nat) then (JsonError, ps)
      else (InString, ps))"
| "json_step (InStringEsc, ps) c =
     (if c \<in> set ''bfnrt/'' \<or> c = CHR 0x5C \<or> c = CHR 0x22 then (InString, ps)
      else if c = CHR ''u'' then (InStringEscU 4, ps)
      else (JsonError, ps))"
| "json_step (InStringEscU n, ps) c =
     (if is_hex c then (if n \<le> 1 then (InString, ps) else (InStringEscU (n - 1), ps))
      else (JsonError, ps))"
| "json_step (Neg, ps) c =
     (if c = CHR ''0'' then (Digit0, ps)
      else if is_digit c then (Digits1, ps)
      else (JsonError, ps))"
| "json_step (Digits1, ps) c = (if is_digit c then (Digits1, ps) else digit0 ps c)"
| "json_step (Digit0, ps) c = digit0 ps c"
| "json_step (Dot, ps) c = (if is_digit c then (Dot0, ps) else (JsonError, ps))"
| "json_step (Dot0, ps) c =
     (if is_digit c then (Dot0, ps)
      else if c = CHR ''e'' \<or> c = CHR ''E'' then (ExpE, ps)
      else end_value ps c)"
| "json_step (ExpE, ps) c =
     (if c = CHR ''+'' \<or> c = CHR ''-'' then (ExpSign, ps)
      else if is_digit c then (Exp0, ps)
      else (JsonError, ps))"
| "json_step (ExpSign, ps) c = (if is_digit c then (Exp0, ps) else (JsonError, ps))"
| "json_step (Exp0, ps) c = (if is_digit c then (Exp0, ps) else end_value ps c)"
| "json_step (Literal cs, ps) c =
     (case cs of
        [] \<Rightarrow> (JsonError, ps)
      | d # ds \<Rightarrow>
          if c = d then (if ds = [] then (EndValue, ps) else (Literal ds, ps))
          else (JsonError, ps))"
| "json_step (JsonError, ps) c = (JsonError, ps)"

text \<open>\<open>checkValid\<close>: run over all bytes, then the end of input acts like one more space.\<close>

definition json_scan :: "json_conf \<Rightarrow> string \<Rightarrow> json_conf" where
  "json_scan conf bs = foldl json_step conf bs"

definition json_valid :: "string \<Rightarrow> bool" where
  "json_valid bs \<longleftrightarrow> fst (json_step (json_scan (BeginValue, []) bs) (CHR '' '')) = EndTop"

section \<open>Unmarshal into a map of raw messages\<close>

datatype json_error = JsonSyntaxError | JsonTypeError

text \<open>
  On valid input the first byte that is not white space tells the kind of value: an object is
  decoded into a non-nil map (\<open>Inr True\<close>), \<open>null\<close> leaves the map nil
  (\<open>Inr False\<close>), every other value is a type error.  The values are kept raw, so no
  further error can occur.
\<close>

definition unmarshal_object :: "string \<Rightarrow> json_error + bool" where
  "unmarshal_object bs =
     (if \<not> json_valid bs then Inl JsonSyntaxError
      else (case dropWhile is_space bs of
          c # _ \<Rightarrow>
            if c = CHR ''{'' then Inr True
            else if c = CHR ''n'' then Inr False
            else Inl JsonTypeError
        | [] \<Rightarrow> Inl JsonSyntaxError))"

section \<open>Facts about the scanner\<close>

lemma json_scan_append: "json_scan conf (xs @ ys) = json_scan (json_scan conf xs) ys"
  by (simp add: json_scan_def)

lemma json_error_sticky: "fst (json_scan (JsonError, ps) bs) = JsonError"
  by (induction bs arbitrary: ps) (simp_all add: json_scan_def)

lemma unmarshal_empty_object [simp]: "unmarshal_object ''{}'' = Inr True"
  by (simp add: unmarshal_object_def json_valid_def json_scan_def begin_value_def push_paren_def
      end_value_def pop_paren_def is_space_def max_nesting_depth_def)

lemma unmarshal_null [simp]: "unmarshal_object ''null'' = Inr False"
  by (simp add: unmarshal_object_def json_valid_def json_scan_def begin_value_def
      end_value_def is_space_def)

lemma unmarshal_object_nonempty: "unmarshal_object bs = Inr True \<Longrightarrow> bs \<noteq> []"
  by (auto simp: unmarshal_object_def json_valid_def json_scan_def begin_value_def is_space_def
      split: if_splits)

text \<open>White space around a value does not change the answer.\<close>

lemma json_scan_leading_space:
  "is_space c \<Longrightarrow> json_scan (BeginValue, []) (c # bs) = json_scan (BeginValue, []) bs"
  by (simp add: json_scan_def begin_value_def)

lemma unmarshal_leading_space:
  assumes "is_space c"
  shows "unmarshal_object (c # bs) = unmarshal_object bs"
  using assms by (simp add: unmarshal_object_def json_valid_def json_scan_leading_space)

end
