(* ===== verification/Domain.thy ===== *)
theory Domain
  imports Ingest_Prelude
begin

text \<open>
  Package \<open>internal/domain\<close>: the order event, the status values and the transition
  classifier \<open>EvaluateTransition\<close>, with the lifecycle of ADR 004 as the abstract
  specification (an inductive step relation on lifecycle stages, ordered by reachability).
\<close>

section \<open>Status (status.go)\<close>

type_synonym Status = string

definition StatusCreated :: Status where "StatusCreated = ''CREATED''"
definition StatusPaid :: Status where "StatusPaid = ''PAID''"
definition StatusShipped :: Status where "StatusShipped = ''SHIPPED''"
definition StatusCancelled :: Status where "StatusCancelled = ''CANCELLED''"

definition isKnown :: "Status \<Rightarrow> bool" where
  "isKnown s \<longleftrightarrow>
     s = StatusCreated \<or> s = StatusPaid \<or> s = StatusShipped \<or> s = StatusCancelled"

section \<open>Order events (order\_event.go)\<close>

text \<open>
  A \<open>time.Time\<close> is its instant, in nanoseconds since Go's zero time (January 1, year 1,
  UTC); the program never looks at a time's location without converting to UTC first.
\<close>

type_synonym gotime = int

definition IsZero :: "gotime \<Rightarrow> bool" where
  "IsZero t \<longleftrightarrow> t = 0"

record OrderEvent =
  EventID :: string
  OrderID :: string
  Status :: Status
  Timestamp :: gotime
  Payload :: string

section \<open>The transition classifier (state\_machine.go)\<close>

definition ClassificationApplied :: string where
  "ClassificationApplied = ''APPLIED''"
definition ClassificationDuplicateStatus :: string where
  "ClassificationDuplicateStatus = ''DUPLICATE_STATUS''"
definition ClassificationOutOfOrder :: string where
  "ClassificationOutOfOrder = ''OUT_OF_ORDER''"
definition ClassificationInvalidTransition :: string where
  "ClassificationInvalidTransition = ''INVALID_TRANSITION''"

record TransitionResult =
  Allowed :: bool
  Classification :: string
  Reason :: string

definition appliedResult :: "string \<Rightarrow> TransitionResult" where
  "appliedResult reason =
     \<lparr>Allowed = True, Classification = ClassificationApplied, Reason = reason\<rparr>"

definition outOfOrderResult :: "string \<Rightarrow> TransitionResult" where
  "outOfOrderResult reason =
     \<lparr>Allowed = False, Classification = ClassificationOutOfOrder, Reason = reason\<rparr>"

definition invalidResult :: "string \<Rightarrow> TransitionResult" where
  "invalidResult reason =
     \<lparr>Allowed = False, Classification = ClassificationInvalidTransition, Reason = reason\<rparr>"

definition EvaluateTransition :: "Status \<Rightarrow> Status \<Rightarrow> TransitionResult" where
  "EvaluateTransition current nxt =
     (if \<not> isKnown nxt then invalidResult ''next status is unknown''
      else if current \<noteq> '''' \<and> \<not> isKnown current then
        invalidResult ''current status is unknown''
      else if current = nxt then
        \<lparr>Allowed = False, Classification = ClassificationDuplicateStatus,
         Reason = ''order already has the requested status''\<rparr>
      else if current = '''' \<and> nxt = StatusCreated then
        appliedResult ''new orders start in CREATED''
      else if current = StatusCreated \<and> nxt = StatusPaid then
        appliedResult ''CREATED orders can be paid''
      else if current = StatusPaid \<and> nxt = StatusShipped then
        appliedResult ''PAID orders can be shipped''
      else if current = StatusCreated \<and> nxt = StatusCancelled then
        appliedResult ''CREATED orders can be cancelled''
      else if current = StatusPaid \<and> nxt = StatusCancelled then
        appliedResult ''PAID orders can be cancelled''
      else if current = '''' \<and> nxt = StatusPaid then
        outOfOrderResult ''CREATED event has not been applied''
      else if current = '''' \<and> nxt = StatusShipped then
        outOfOrderResult ''CREATED and PAID events have not been applied''
      else if current = StatusCreated \<and> nxt = StatusShipped then
        outOfOrderResult ''PAID event has not been applied''
      else invalidResult ''transition is not allowed'')"

section \<open>The lifecycle of ADR 004\<close>

datatype stage = Absent | Created | Paid | Shipped | Cancelled

inductive lifecycle :: "stage \<Rightarrow> stage \<Rightarrow> bool" where
  create: "lifecycle Absent Created"
| pay: "lifecycle Created Paid"
| ship: "lifecycle Paid Shipped"
| cancel_created: "lifecycle Created Cancelled"
| cancel_paid: "lifecycle Paid Cancelled"

code_pred lifecycle .

inductive_simps lifecycle_simps:
  "lifecycle Absent b" "lifecycle Created b" "lifecycle Paid b"
  "lifecycle Shipped b" "lifecycle Cancelled b"

text \<open>The stage a status string stands for; the empty string stands for no order row.\<close>

definition stage_of :: "Status \<Rightarrow> stage option" where
  "stage_of s =
     (if s = '''' then Some Absent
      else if s = StatusCreated then Some Created
      else if s = StatusPaid then Some Paid
      else if s = StatusShipped then Some Shipped
      else if s = StatusCancelled then Some Cancelled
      else None)"

fun status_of :: "stage \<Rightarrow> Status" where
  "status_of Absent = ''''"
| "status_of Created = StatusCreated"
| "status_of Paid = StatusPaid"
| "status_of Shipped = StatusShipped"
| "status_of Cancelled = StatusCancelled"

text \<open>How far along its lifecycle a stage is.\<close>

fun stage_rank :: "stage \<Rightarrow> nat" where
  "stage_rank Absent = 0"
| "stage_rank Created = 1"
| "stage_rank Paid = 2"
| "stage_rank Shipped = 3"
| "stage_rank Cancelled = 3"

text \<open>Stages are ordered by reachability: a stage precedes those its lifecycle can reach.\<close>

instantiation stage :: order
begin

definition less_eq_stage :: "stage \<Rightarrow> stage \<Rightarrow> bool" where
  "less_eq_stage a b \<longleftrightarrow> a = b \<or> stage_rank a < stage_rank b"

definition less_stage :: "stage \<Rightarrow> stage \<Rightarrow> bool" where
  "less_stage a b \<longleftrightarrow> stage_rank a < stage_rank b"

instance
  by standard (auto simp: less_eq_stage_def less_stage_def)

end

section \<open>Facts\<close>

lemmas status_defs = StatusCreated_def StatusPaid_def StatusShipped_def StatusCancelled_def
lemmas classification_defs = ClassificationApplied_def ClassificationDuplicateStatus_def
  ClassificationOutOfOrder_def ClassificationInvalidTransition_def

lemma status_distinct [simp, status_simps]:
  "StatusCreated \<noteq> StatusPaid" "StatusPaid \<noteq> StatusCreated"
  "StatusCreated \<noteq> StatusShipped" "StatusShipped \<noteq> StatusCreated"
  "StatusCreated \<noteq> StatusCancelled" "StatusCancelled \<noteq> StatusCreated"
  "StatusPaid \<noteq> StatusShipped" "StatusShipped \<noteq> StatusPaid"
  "StatusPaid \<noteq> StatusCancelled" "StatusCancelled \<noteq> StatusPaid"
  "StatusShipped \<noteq> StatusCancelled" "StatusCancelled \<noteq> StatusShipped"
  by (simp_all add: status_defs)

lemma status_nonempty [simp, status_simps]:
  "StatusCreated \<noteq> []" "StatusPaid \<noteq> []" "StatusShipped \<noteq> []" "StatusCancelled \<noteq> []"
  "[] \<noteq> StatusCreated" "[] \<noteq> StatusPaid" "[] \<noteq> StatusShipped" "[] \<noteq> StatusCancelled"
  by (simp_all add: status_defs)

lemma classification_distinct [simp, status_simps]:
  "ClassificationApplied \<noteq> ClassificationDuplicateStatus"
  "ClassificationDuplicateStatus \<noteq> ClassificationApplied"
  "ClassificationApplied \<noteq> ClassificationOutOfOrder"
  "ClassificationOutOfOrder \<noteq> ClassificationApplied"
  "ClassificationApplied \<noteq> ClassificationInvalidTransition"
  "ClassificationInvalidTransition \<noteq> ClassificationApplied"
  "ClassificationDuplicateStatus \<noteq> ClassificationOutOfOrder"
  "ClassificationOutOfOrder \<noteq> ClassificationDuplicateStatus"
  "ClassificationDuplicateStatus \<noteq> ClassificationInvalidTransition"
  "ClassificationInvalidTransition \<noteq> ClassificationDuplicateStatus"
  "ClassificationOutOfOrder \<noteq> ClassificationInvalidTransition"
  "ClassificationInvalidTransition \<noteq> ClassificationOutOfOrder"
  by (simp_all add: classification_defs)

lemma isKnown_simps [simp, status_simps]:
  "isKnown StatusCreated" "isKnown StatusPaid" "isKnown StatusShipped" "isKnown StatusCancelled"
  "\<not> isKnown []"
  by (simp_all add: isKnown_def)

lemma result_sel [simp]:
  "Classification (appliedResult r) = ClassificationApplied"
  "Classification (outOfOrderResult r) = ClassificationOutOfOrder"
  "Classification (invalidResult r) = ClassificationInvalidTransition"
  "Allowed (appliedResult r)" "\<not> Allowed (outOfOrderResult r)" "\<not> Allowed (invalidResult r)"
  "Reason (appliedResult r) = r" "Reason (outOfOrderResult r) = r" "Reason (invalidResult r) = r"
  by (simp_all add: appliedResult_def outOfOrderResult_def invalidResult_def)

lemma stage_of_status_of [simp]: "stage_of (status_of a) = Some a"
  by (cases a) (simp_all add: stage_of_def)

lemma stage_of_Some_iff: "stage_of s = Some a \<longleftrightarrow> s = status_of a"
  by (cases a) (auto simp: stage_of_def)

lemma stage_of_simps [simp, status_simps]:
  "stage_of [] = Some Absent" "stage_of StatusCreated = Some Created"
  "stage_of StatusPaid = Some Paid" "stage_of StatusShipped = Some Shipped"
  "stage_of StatusCancelled = Some Cancelled"
  by (simp_all add: stage_of_def)

lemma isKnown_iff_stage: "isKnown s \<longleftrightarrow> (\<exists>a. stage_of s = Some a \<and> a \<noteq> Absent)"
  by (auto simp: isKnown_def stage_of_def)

lemma isKnown_status_of [simp]: "isKnown (status_of a) \<longleftrightarrow> a \<noteq> Absent"
  by (cases a) simp_all

lemma status_of_inject [simp]: "status_of a = status_of b \<longleftrightarrow> a = b"
  by (metis option.inject stage_of_status_of)

lemma lifecycle_rank: "lifecycle a b \<Longrightarrow> stage_rank b = Suc (stage_rank a) \<or> b = Cancelled \<and> a \<noteq> Absent"
  by (induction rule: lifecycle.induct) simp_all

lemma lifecycle_less: "lifecycle a b \<Longrightarrow> a < b"
  by (induction rule: lifecycle.induct) (simp_all add: less_stage_def)

lemma lifecycle_less_eq: "lifecycle\<^sup>*\<^sup>* a b \<Longrightarrow> a \<le> b"
  by (induction rule: rtranclp_induct) (auto dest: lifecycle_less)

lemma lifecycle_reach_iff: "lifecycle\<^sup>*\<^sup>* a b \<longleftrightarrow> a \<le> b"
proof
  assume "a \<le> b"
  have ac: "lifecycle\<^sup>*\<^sup>* Absent Created" and cp: "lifecycle\<^sup>*\<^sup>* Created Paid"
    and ps: "lifecycle\<^sup>*\<^sup>* Paid Shipped" and cc: "lifecycle\<^sup>*\<^sup>* Created Cancelled"
    and pc: "lifecycle\<^sup>*\<^sup>* Paid Cancelled"
    by (auto intro: lifecycle.intros)
  note chain = ac cp ps cc pc rtranclp_trans [OF ac cp] rtranclp_trans [OF cp ps]
    rtranclp_trans [OF ac cc] rtranclp_trans [OF rtranclp_trans [OF ac cp] ps]
  from \<open>a \<le> b\<close> show "lifecycle\<^sup>*\<^sup>* a b"
    by (cases a; cases b) (simp_all add: less_eq_stage_def chain)
qed (rule lifecycle_less_eq)

lemma classify_stage:
  assumes "b \<noteq> Absent"
  shows "Classification (EvaluateTransition (status_of a) (status_of b)) =
    (if a = b then ClassificationDuplicateStatus
     else if lifecycle a b then ClassificationApplied
     else if a < b \<and> b \<noteq> Cancelled then ClassificationOutOfOrder
     else ClassificationInvalidTransition)"
  using assms
  by (cases a; cases b) (simp_all add: EvaluateTransition_def lifecycle_simps less_stage_def)

lemma classify_unknown:
  assumes "stage_of current = None \<or> \<not> isKnown nxt"
  shows "Classification (EvaluateTransition current nxt) = ClassificationInvalidTransition"
  using assms by (auto simp: EvaluateTransition_def isKnown_iff_stage)

lemma classify_cases [case_names Unknown Known]:
  obtains "stage_of current = None \<or> \<not> isKnown nxt"
  | a b where "current = status_of a" and "nxt = status_of b" and "b \<noteq> Absent"
  by (metis isKnown_iff_stage not_None_eq stage_of_Some_iff)

lemma applied_iff:
  "Classification (EvaluateTransition current nxt) = ClassificationApplied \<longleftrightarrow>
     (\<exists>a b. current = status_of a \<and> nxt = status_of b \<and> lifecycle a b)"
proof (cases current nxt rule: classify_cases)
  case Unknown
  then show ?thesis
    by (auto simp: classify_unknown elim: lifecycle.cases)
next
  case (Known a b)
  moreover have "\<not> lifecycle b b" using lifecycle_less by blast
  ultimately show ?thesis by (auto simp: classify_stage)
qed

lemma classification_total:
  "Classification (EvaluateTransition current nxt) \<in>
     {ClassificationApplied, ClassificationDuplicateStatus, ClassificationOutOfOrder,
      ClassificationInvalidTransition}"
  by (cases current nxt rule: classify_cases) (auto simp: classify_unknown classify_stage)

lemma allowed_iff_applied:
  "Allowed (EvaluateTransition current nxt) \<longleftrightarrow>
     Classification (EvaluateTransition current nxt) = ClassificationApplied"
  by (simp add: EvaluateTransition_def)

lemma out_of_order_iff:
  "Classification (EvaluateTransition current nxt) = ClassificationOutOfOrder \<longleftrightarrow>
     (\<exists>a b. current = status_of a \<and> nxt = status_of b \<and> a < b \<and> \<not> lifecycle a b \<and> b \<noteq> Cancelled)"
proof (cases current nxt rule: classify_cases)
  case Unknown
  then show ?thesis
    by (auto simp: classify_unknown) (auto simp: less_stage_def)
next
  case (Known a b)
  then show ?thesis by (auto simp: classify_stage)
qed

lemma duplicate_status_iff:
  "Classification (EvaluateTransition current nxt) = ClassificationDuplicateStatus \<longleftrightarrow>
     current = nxt \<and> isKnown nxt"
  by (cases current nxt rule: classify_cases)
     (auto simp: classify_unknown classify_stage isKnown_iff_stage)

lemma lifecycle_tranclp_iff: "lifecycle\<^sup>+\<^sup>+ a b \<longleftrightarrow> a < b"
proof
  assume "a < b"
  then have "lifecycle\<^sup>*\<^sup>* a b" and "a \<noteq> b" by (simp_all add: lifecycle_reach_iff)
  then show "lifecycle\<^sup>+\<^sup>+ a b" by (metis rtranclpD)
next
  assume "lifecycle\<^sup>+\<^sup>+ a b"
  then show "a < b" by (induction rule: tranclp_induct) (auto dest: lifecycle_less)
qed

section \<open>Properties of the classifier\<close>

text \<open>
  C15: \<open>EvaluateTransition\<close> decides the lifecycle of ADR 004 for every pair of strings.  A
  request is allowed, and classified as applied, exactly if it is one step of the lifecycle
  from the current stage; it is out of order exactly if it is reachable from there but not in
  one step and is not a cancellation; it is a duplicate exactly if it asks for the known status
  the order has; every other request, unknown statuses included, is an invalid transition.
\<close>

theorem EvaluateTransition_decides_lifecycle:
  "let class = Classification (EvaluateTransition current nxt) in
   (class = ClassificationApplied \<longleftrightarrow>
     (\<exists>a b. current = status_of a \<and> nxt = status_of b \<and> lifecycle a b)) \<and>
   (class = ClassificationOutOfOrder \<longleftrightarrow>
     (\<exists>a b. current = status_of a \<and> nxt = status_of b \<and> lifecycle\<^sup>+\<^sup>+ a b \<and> \<not> lifecycle a b \<and>
        b \<noteq> Cancelled)) \<and>
   (class = ClassificationDuplicateStatus \<longleftrightarrow> current = nxt \<and> isKnown nxt) \<and>
   class \<in> {ClassificationApplied, ClassificationOutOfOrder, ClassificationDuplicateStatus,
     ClassificationInvalidTransition} \<and>
   (Allowed (EvaluateTransition current nxt) \<longleftrightarrow> class = ClassificationApplied)"
  using classification_total [of current nxt]
  unfolding Let_def lifecycle_tranclp_iff allowed_iff_applied
  by (intro conjI applied_iff out_of_order_iff duplicate_status_iff) auto

text \<open>A sequence of statuses in which every request was allowed when it was made.\<close>

fun allowed_path :: "Status list \<Rightarrow> bool" where
  "allowed_path (s # t # rest) \<longleftrightarrow> Allowed (EvaluateTransition s t) \<and> allowed_path (t # rest)"
| "allowed_path _ \<longleftrightarrow> True"

lemma allowed_step:
  assumes "Allowed (EvaluateTransition s t)"
  obtains a b where "s = status_of a" and "t = status_of b" and "a < b"
  using assms lifecycle_less by (auto simp: allowed_iff_applied applied_iff)

lemma allowed_path_stages:
  assumes "allowed_path (s # ss)"
  shows "\<forall>t \<in> set ss. \<exists>a b. s = status_of a \<and> t = status_of b \<and> a < b"
    and "distinct (s # ss)"
    and "ss \<noteq> [] \<Longrightarrow> s = status_of a \<Longrightarrow> stage_rank a + length ss \<le> 3"
  using assms
proof (induction ss arbitrary: s a)
  case (Cons t ss)
  {
    case 1
    then obtain a b where ab: "s = status_of a" "t = status_of b" "a < b"
      by (auto elim: allowed_step)
    with Cons.IH(1) [of t] 1 have "\<exists>d. u = status_of d \<and> b < d" if "u \<in> set ss" for u
      using that by fastforce
    with ab show ?case by (auto intro: less_trans)
  next
    case 2
    then obtain a b where "s = status_of a" "t = status_of b" "a < b" by (auto elim: allowed_step)
    with Cons.IH(1,2) [of t] 2 show ?case by (fastforce dest: less_trans)
  next
    case 3
    then obtain b where b: "t = status_of b" "stage_rank a < stage_rank b"
      by (auto elim!: allowed_step simp: less_stage_def)
    with Cons.IH(3) [of t b] 3 show ?case
      by (cases ss; cases b) (auto elim!: allowed_step)
  }
qed simp_all

text \<open>
  C24: The lifecycle the classifier implements always ends: a sequence of allowed requests never
  returns to a status it has left, and it changes an order at most three times.
\<close>

theorem allowed_requests_end:
  assumes "allowed_path (s # ss)"
  shows "distinct (s # ss) \<and> length ss \<le> 3"
proof (cases ss)
  case (Cons t rest)
  with assms obtain a where "s = status_of a" by (auto elim: allowed_step)
  with Cons allowed_path_stages(2,3) [OF assms] show ?thesis by fastforce
qed simp

theorem allowed_requests_end_witness:
  "let ss = [StatusCreated, StatusPaid, StatusShipped] in
   allowed_path ([] # ss) \<and> distinct ([] # ss) \<and> length ss \<le> 3"
  using allowed_requests_end [of "[]" "[StatusCreated, StatusPaid, StatusShipped]"]
  by (simp add: EvaluateTransition_def)

end
