(* ===== verification/Postgres.thy ===== *)
theory Postgres
  imports Domain "HOL-Library.List_Lexorder" "HOL-Library.Char_ord"
begin

text \<open>
  The database as \<open>internal/repository/order_repository.go\<close> sees it.  PostgreSQL and its
  driver are not part of the repository; they enter through the Go interface
  \<open>dbTransaction\<close>, a record of operations over an unspecified session state, which every
  definition of the repository takes as an argument.

  The SQL text is part of the repository, so its meaning is written out: the tables of
  \<open>migrations/001_init.sql\<close> (\<open>tables\<close>), the statements of the Go code as values of
  \<open>sql_stmt\<close>, the constraints each one must satisfy (\<open>sql_constraint\<close>) and what it
  does to the tables when it succeeds (\<open>sql_effect\<close>).  Columns filled by \<open>now()\<close>, the
  serial row numbers and the two pending columns the program never writes are left out, since
  no statement reads them.

  The locale \<open>pg_session\<close> states what the program relies on: a statement that reports
  success had its SQL effect inside the transaction, nothing becomes durable before
  \<open>Commit\<close>, a successful commit makes exactly the transaction's view durable, and a failed
  commit leaves either the old or the new state.  \<open>pg_available\<close> adds that a statement
  within its constraints succeeds.
\<close>

section \<open>The schema (migrations/001\_init.sql)\<close>

record order_row =
  current_status :: string
  last_event_timestamp :: gotime

record processed_row =
  pr_order_id :: string
  pr_status :: string
  pr_event_timestamp :: gotime
  pr_outcome :: string

record history_row =
  h_event_id :: string
  h_order_id :: string
  h_from_status :: "string option"
  h_to_status :: string
  h_event_timestamp :: gotime

record pending_row =
  pe_event_id :: string
  pe_order_id :: string
  pe_status :: string
  pe_event_timestamp :: gotime
  pe_reason :: string
  pe_payload :: string

record dead_letter_row =
  dl_event_id :: string
  dl_order_id :: string
  dl_status :: string
  dl_reason :: string
  dl_payload :: string

text \<open>
  Tables with a primary key that is only looked up by it are maps; the others are lists of
  rows in insertion order.
\<close>

record tables =
  orders :: "string \<rightharpoonup> order_row"
  processed_events :: "string \<rightharpoonup> processed_row"
  order_status_history :: "history_row list"
  pending_events :: "pending_row list"
  dead_letter_events :: "dead_letter_row list"

definition empty_tables :: tables where
  "empty_tables = \<lparr>orders = Map.empty, processed_events = Map.empty,
     order_status_history = [], pending_events = [], dead_letter_events = []\<rparr>"

text \<open>
  How the server stores the values it is given: \<open>tstz\<close> is what a time becomes in a
  \<open>TIMESTAMPTZ\<close> column, \<open>jsonb\<close> what a payload reads back as from a \<open>JSONB\<close> column,
  \<open>text_le\<close> the collation order of \<open>TEXT\<close> columns.  Not every value can be stored: text
  must be in the server's encoding, free of NUL bytes and short enough for an index
  (\<open>text_ok\<close>), a time in the range of the type (\<open>tstz_ok\<close>), and a JSON document free of
  what \<open>JSONB\<close> refuses, such as the escape of U+0000 (\<open>jsonb_ok\<close>).
\<close>

record pg_codec =
  tstz :: "gotime \<Rightarrow> gotime"
  jsonb :: "string \<Rightarrow> string"
  text_le :: "string \<Rightarrow> string \<Rightarrow> bool"
  text_ok :: "string \<Rightarrow> bool"
  tstz_ok :: "gotime \<Rightarrow> bool"
  jsonb_ok :: "string \<Rightarrow> bool"

text \<open>Short printable ASCII, as the program's own literals are; every encoding has it.\<close>

definition plain_text :: "string \<Rightarrow> bool" where
  "plain_text s \<longleftrightarrow>
     length s \<le> 100 \<and> list_all (\<lambda>ch. (32::nat) \<le> of_char ch \<and> of_char ch < (127::nat)) s"

section \<open>The statements of the program\<close>

datatype sql_stmt =
    AdvisoryXactLock string
  | InsertProcessedEvent string string string gotime string
  | UpdateOrder string string gotime
  | InsertOrder string string gotime
  | InsertStatusHistory string string "string option" string gotime
  | InsertPendingEvent string string string gotime string string
  | InsertDeadLetterEvent string string string string string
  | UpdateOutcome string string
  | DeletePendingEvent string

definition status_check :: "string \<Rightarrow> bool" where
  "status_check s \<longleftrightarrow> s \<in> {''CREATED'', ''PAID'', ''SHIPPED'', ''CANCELLED''}"

text \<open>
  What a statement may run into: parameters the server cannot store, and the constraints of the
  schema.
\<close>

fun sql_constraint :: "pg_codec \<Rightarrow> sql_stmt \<Rightarrow> tables \<Rightarrow> bool" where
  "sql_constraint c (AdvisoryXactLock oid) t \<longleftrightarrow> text_ok c oid"
| "sql_constraint c (InsertProcessedEvent eid oid st ts out) t \<longleftrightarrow>
     text_ok c eid \<and> text_ok c oid \<and> tstz_ok c ts \<and> text_ok c out \<and> status_check st"
| "sql_constraint c (UpdateOrder oid st ts) t \<longleftrightarrow>
     text_ok c oid \<and> tstz_ok c ts \<and> (orders t oid = None \<or> status_check st)"
| "sql_constraint c (InsertOrder oid st ts) t \<longleftrightarrow>
     text_ok c oid \<and> tstz_ok c ts \<and> status_check st \<and> orders t oid = None"
| "sql_constraint c (InsertStatusHistory eid oid from to ts) t \<longleftrightarrow>
     text_ok c eid \<and> text_ok c oid \<and> tstz_ok c ts \<and>
     pred_option status_check from \<and> status_check to \<and>
     eid \<notin> h_event_id ` set (order_status_history t) \<and> orders t oid \<noteq> None"
| "sql_constraint c (InsertPendingEvent eid oid st ts reason payload) t \<longleftrightarrow>
     text_ok c eid \<and> text_ok c oid \<and> tstz_ok c ts \<and> text_ok c reason \<and> jsonb_ok c payload \<and>
     status_check st \<and> eid \<notin> pe_event_id ` set (pending_events t)"
| "sql_constraint c (InsertDeadLetterEvent eid oid st reason payload) t \<longleftrightarrow>
     text_ok c eid \<and> text_ok c oid \<and> text_ok c reason \<and> jsonb_ok c payload \<and> status_check st"
| "sql_constraint c (UpdateOutcome eid out) t \<longleftrightarrow> text_ok c eid \<and> text_ok c out"
| "sql_constraint c (DeletePendingEvent eid) t \<longleftrightarrow> text_ok c eid"

text \<open>The tables after a successful statement, and the number of rows it affected.\<close>

fun sql_effect :: "pg_codec \<Rightarrow> sql_stmt \<Rightarrow> tables \<Rightarrow> tables \<times> nat" where
  "sql_effect c (AdvisoryXactLock oid) t = (t, 1)"
| "sql_effect c (InsertProcessedEvent eid oid st ts out) t =
     (if processed_events t eid \<noteq> None then (t, 0)
      else (t\<lparr>processed_events := (processed_events t)(eid \<mapsto>
              \<lparr>pr_order_id = oid, pr_status = st, pr_event_timestamp = tstz c ts,
               pr_outcome = out\<rparr>)\<rparr>, 1))"
| "sql_effect c (UpdateOrder oid st ts) t =
     (case orders t oid of
        None \<Rightarrow> (t, 0)
      | Some r \<Rightarrow>
          (t\<lparr>orders := (orders t)(oid \<mapsto>
              r\<lparr>current_status := st, last_event_timestamp := tstz c ts\<rparr>)\<rparr>, 1))"
| "sql_effect c (InsertOrder oid st ts) t =
     (t\<lparr>orders := (orders t)(oid \<mapsto>
         \<lparr>current_status = st, last_event_timestamp = tstz c ts\<rparr>)\<rparr>, 1)"
| "sql_effect c (InsertStatusHistory eid oid from to ts) t =
     (t\<lparr>order_status_history := order_status_history t @
         [\<lparr>h_event_id = eid, h_order_id = oid, h_from_status = from, h_to_status = to,
           h_event_timestamp = tstz c ts\<rparr>]\<rparr>, 1)"
| "sql_effect c (InsertPendingEvent eid oid st ts reason payload) t =
     (t\<lparr>pending_events := pending_events t @
         [\<lparr>pe_event_id = eid, pe_order_id = oid, pe_status = st,
           pe_event_timestamp = tstz c ts, pe_reason = reason, pe_payload = jsonb c payload\<rparr>]\<rparr>, 1)"
| "sql_effect c (InsertDeadLetterEvent eid oid st reason payload) t =
     (t\<lparr>dead_letter_events := dead_letter_events t @
         [\<lparr>dl_event_id = eid, dl_order_id = oid, dl_status = st, dl_reason = reason,
           dl_payload = jsonb c payload\<rparr>]\<rparr>, 1)"
| "sql_effect c (UpdateOutcome eid out) t =
     (case processed_events t eid of
        None \<Rightarrow> (t, 0)
      | Some r \<Rightarrow>
          (t\<lparr>processed_events := (processed_events t)(eid \<mapsto> r\<lparr>pr_outcome := out\<rparr>)\<rparr>, 1))"
| "sql_effect c (DeletePendingEvent eid) t =
     (t\<lparr>pending_events := filter (\<lambda>r. pe_event_id r \<noteq> eid) (pending_events t)\<rparr>,
      length (filter (\<lambda>r. pe_event_id r = eid) (pending_events t)))"

text \<open>
  The two queries: the status of an order, and the first pending row of an order by
  \<open>event_timestamp, event_id\<close>.
\<close>

definition select_current_status :: "string \<Rightarrow> tables \<Rightarrow> string option" where
  "select_current_status oid t = map_option current_status (orders t oid)"

definition pending_before :: "pg_codec \<Rightarrow> pending_row \<Rightarrow> pending_row \<Rightarrow> bool" where
  "pending_before c r r' \<longleftrightarrow>
     pe_event_timestamp r < pe_event_timestamp r' \<or>
     pe_event_timestamp r = pe_event_timestamp r' \<and> text_le c (pe_event_id r) (pe_event_id r')"

definition select_next_pending :: "pg_codec \<Rightarrow> string \<Rightarrow> tables \<Rightarrow> pending_row option" where
  "select_next_pending c oid t =
     least_by (pending_before c) (filter (\<lambda>r. pe_order_id r = oid) (pending_events t))"

section \<open>The Go interface dbTransaction\<close>

datatype db_error = ErrNoRows | DbError string

text \<open>
  \<open>begin\<close> of the repository and the methods of \<open>dbTransaction\<close>; the two uses of
  \<open>QueryRow(...).Scan(...)\<close> are two operations, one per query.  All of them may change the
  session state \<open>'s\<close>.
\<close>

record 's dbTransaction =
  Begin :: "'s \<Rightarrow> 's \<times> db_error option"
  Exec :: "'s \<Rightarrow> sql_stmt \<Rightarrow> 's \<times> (db_error + nat)"
  QueryRowStatus :: "'s \<Rightarrow> string \<Rightarrow> 's \<times> (db_error + string)"
  QueryRowPending :: "'s \<Rightarrow> string \<Rightarrow> 's \<times> (db_error + pending_row)"
  Commit :: "'s \<Rightarrow> 's \<times> db_error option"
  Rollback :: "'s \<Rightarrow> 's \<times> db_error option"

section \<open>What the program relies on\<close>

locale pg_session =
  fixes db :: "'s dbTransaction"
    and codec :: pg_codec
    and view :: "'s \<Rightarrow> tables"
    and committed :: "'s \<Rightarrow> tables"
    and in_tx :: "'s \<Rightarrow> bool"
  assumes begin_ok: "Begin db s = (s', None) \<Longrightarrow>
      in_tx s' \<and> view s' = committed s \<and> committed s' = committed s"
    and begin_err: "Begin db s = (s', Some e) \<Longrightarrow> committed s' = committed s"
    and exec_ok: "in_tx s \<Longrightarrow> Exec db s st = (s', Inr n) \<Longrightarrow>
      in_tx s' \<and> sql_constraint codec st (view s) \<and> sql_effect codec st (view s) = (view s', n) \<and>
      committed s' = committed s"
    and exec_err: "in_tx s \<Longrightarrow> Exec db s st = (s', Inl e) \<Longrightarrow> committed s' = committed s"
    and query_status: "in_tx s \<Longrightarrow> QueryRowStatus db s oid = (s', r) \<Longrightarrow>
      committed s' = committed s \<and>
      (case r of
         Inr st \<Rightarrow> in_tx s' \<and> view s' = view s \<and> select_current_status oid (view s) = Some st
       | Inl e \<Rightarrow> e = ErrNoRows \<longrightarrow>
           in_tx s' \<and> view s' = view s \<and> select_current_status oid (view s) = None)"
    and query_pending: "in_tx s \<Longrightarrow> QueryRowPending db s oid = (s', p) \<Longrightarrow>
      committed s' = committed s \<and>
      (case p of
         Inr row \<Rightarrow> in_tx s' \<and> view s' = view s \<and> select_next_pending codec oid (view s) = Some row
       | Inl e \<Rightarrow> e = ErrNoRows \<longrightarrow>
           in_tx s' \<and> view s' = view s \<and> select_next_pending codec oid (view s) = None)"
    and commit_ok: "in_tx s \<Longrightarrow> Commit db s = (s', None) \<Longrightarrow> committed s' = view s"
    and commit_err: "in_tx s \<Longrightarrow> Commit db s = (s', Some e) \<Longrightarrow>
      committed s' = committed s \<or> committed s' = view s"
    and rollback: "committed (fst (Rollback db s)) = committed s"

text \<open>The server stores plain text, and what it gave back it can store again.\<close>

locale pg_storage =
  fixes codec :: pg_codec
  assumes plain_ok: "plain_text s \<Longrightarrow> text_ok codec s"
    and tstz_again: "tstz_ok codec ts \<Longrightarrow> tstz_ok codec (tstz codec ts)"
    and jsonb_again: "jsonb_ok codec p \<Longrightarrow> jsonb_ok codec (jsonb codec p)"

text \<open>A database that is up: what can be stored within the constraints is stored.\<close>

locale pg_available = pg_session db codec view committed in_tx + pg_storage codec
  for db :: "'s dbTransaction" and codec view committed in_tx +
  fixes available :: "'s \<Rightarrow> bool"
  assumes available_begin: "available s \<Longrightarrow> \<exists>s'. Begin db s = (s', None) \<and> available s'"
    and available_exec: "available s \<Longrightarrow> in_tx s \<Longrightarrow> sql_constraint codec st (view s) \<Longrightarrow>
      \<exists>s' n. Exec db s st = (s', Inr n) \<and> available s'"
    and available_query_status: "available s \<Longrightarrow> in_tx s \<Longrightarrow> text_ok codec oid \<Longrightarrow>
      \<exists>s' r. QueryRowStatus db s oid = (s', r) \<and> available s' \<and> (\<forall>m. r \<noteq> Inl (DbError m))"
    and available_query_pending: "available s \<Longrightarrow> in_tx s \<Longrightarrow> text_ok codec oid \<Longrightarrow>
      \<exists>s' p. QueryRowPending db s oid = (s', p) \<and> available s' \<and> (\<forall>m. p \<noteq> Inl (DbError m))"
    and available_commit: "available s \<Longrightarrow> in_tx s \<Longrightarrow> \<exists>s'. Commit db s = (s', None) \<and> available s'"
    and available_rollback: "available s \<Longrightarrow> available (fst (Rollback db s))"

section \<open>An executable session\<close>

text \<open>
  A session of the kind the laws describe, for evaluation: the durable tables, the open
  transaction's view, and a script of faults, one entry consumed per operation.  An exhausted
  script means no more faults; a failed statement aborts the transaction, and a fault at commit
  says whether the commit took effect.
\<close>

datatype fault = NoFault | Fault string | FaultAfterCommit string

record sim =
  sim_committed :: tables
  sim_tx :: "tables option"
  sim_faults :: "fault list"

definition sim_start :: "tables \<Rightarrow> fault list \<Rightarrow> sim" where
  "sim_start t fs = \<lparr>sim_committed = t, sim_tx = None, sim_faults = fs\<rparr>"

definition sim_tick :: "sim \<Rightarrow> sim" where
  "sim_tick s = s\<lparr>sim_faults := tl (sim_faults s)\<rparr>"

definition sim_fault :: "sim \<Rightarrow> fault" where
  "sim_fault s = (case sim_faults s of [] \<Rightarrow> NoFault | f # _ \<Rightarrow> f)"

definition sim_guard :: "sim \<Rightarrow> (tables \<Rightarrow> sim \<times> (db_error + 'a)) \<Rightarrow> sim \<times> (db_error + 'a)" where
  "sim_guard s k =
     (case (sim_tx s, sim_fault s) of
        (Some t, NoFault) \<Rightarrow> k t
      | (None, NoFault) \<Rightarrow> (sim_tick s, Inl (DbError ''no transaction''))
      | (_, Fault m) \<Rightarrow> ((sim_tick s)\<lparr>sim_tx := None\<rparr>, Inl (DbError m))
      | (_, FaultAfterCommit m) \<Rightarrow> ((sim_tick s)\<lparr>sim_tx := None\<rparr>, Inl (DbError m)))"

definition pgsim :: "pg_codec \<Rightarrow> sim dbTransaction" where
  "pgsim c =
     \<lparr>Begin = (\<lambda>s. case sim_fault s of
          NoFault \<Rightarrow> ((sim_tick s)\<lparr>sim_tx := Some (sim_committed s)\<rparr>, None)
        | Fault m \<Rightarrow> (sim_tick s, Some (DbError m))
        | FaultAfterCommit m \<Rightarrow> (sim_tick s, Some (DbError m))),
      Exec = (\<lambda>s st. sim_guard s (\<lambda>t.
          if sql_constraint c st t
          then ((sim_tick s)\<lparr>sim_tx := Some (fst (sql_effect c st t))\<rparr>,
                Inr (snd (sql_effect c st t)))
          else ((sim_tick s)\<lparr>sim_tx := None\<rparr>, Inl (DbError ''constraint violation'')))),
      QueryRowStatus = (\<lambda>s oid. sim_guard s (\<lambda>t.
          if \<not> text_ok c oid then ((sim_tick s)\<lparr>sim_tx := None\<rparr>, Inl (DbError ''invalid text''))
          else case select_current_status oid t of
            None \<Rightarrow> (sim_tick s, Inl ErrNoRows)
          | Some st \<Rightarrow> (sim_tick s, Inr st))),
      QueryRowPending = (\<lambda>s oid. sim_guard s (\<lambda>t.
          if \<not> text_ok c oid then ((sim_tick s)\<lparr>sim_tx := None\<rparr>, Inl (DbError ''invalid text''))
          else case select_next_pending c oid t of
            None \<Rightarrow> (sim_tick s, Inl ErrNoRows)
          | Some row \<Rightarrow> (sim_tick s, Inr row))),
      Commit = (\<lambda>s. case (sim_tx s, sim_fault s) of
          (Some t, NoFault) \<Rightarrow> ((sim_tick s)\<lparr>sim_committed := t, sim_tx := None\<rparr>, None)
        | (Some t, FaultAfterCommit m) \<Rightarrow>
            ((sim_tick s)\<lparr>sim_committed := t, sim_tx := None\<rparr>, Some (DbError m))
        | (_, Fault m) \<Rightarrow> ((sim_tick s)\<lparr>sim_tx := None\<rparr>, Some (DbError m))
        | _ \<Rightarrow> ((sim_tick s)\<lparr>sim_tx := None\<rparr>, Some (DbError ''no transaction''))),
      Rollback = (\<lambda>s. (s\<lparr>sim_tx := None\<rparr>, None))\<rparr>"

definition sim_view :: "sim \<Rightarrow> tables" where
  "sim_view s = (case sim_tx s of None \<Rightarrow> sim_committed s | Some t \<Rightarrow> t)"

definition sim_in_tx :: "sim \<Rightarrow> bool" where
  "sim_in_tx s \<longleftrightarrow> sim_tx s \<noteq> None"

definition sim_available :: "sim \<Rightarrow> bool" where
  "sim_available s \<longleftrightarrow> sim_faults s = []"

lemmas sim_defs = pgsim_def sim_view_def sim_in_tx_def sim_tick_def sim_guard_def sim_fault_def
  sim_available_def

interpretation sim_session: pg_session "pgsim c" c sim_view sim_committed sim_in_tx
proof unfold_locales
qed (auto simp: sim_defs split: option.splits fault.splits prod.splits sum.splits if_splits list.splits)

text \<open>
  A codec like that of a server with an ASCII database: times are cut to microseconds, text is
  compared byte by byte, \<open>JSONB\<close> keeps a document as it is and refuses the escape of U+0000.
\<close>

definition sim_codec :: pg_codec where
  "sim_codec =
     \<lparr>tstz = (\<lambda>ts. ts div 1000 * 1000), jsonb = (\<lambda>p. p), text_le = (\<lambda>a b. a \<le> b),
      text_ok = (\<lambda>s. length s \<le> 2000 \<and> list_all (\<lambda>ch. (0::nat) < of_char ch \<and> of_char ch < (128::nat)) s),
      tstz_ok = (\<lambda>ts. - (10 ^ 20) \<le> ts \<and> ts < 10 ^ 22),
      jsonb_ok = (\<lambda>p. \<not> sublist [CHR 0x5C, CHR ''u'', CHR ''0'', CHR ''0'', CHR ''0'', CHR ''0''] p)\<rparr>"

interpretation sim_storage: pg_storage sim_codec
proof unfold_locales
  fix s
  assume "plain_text s"
  then show "text_ok sim_codec s"
    by (auto simp: plain_text_def sim_codec_def list_all_iff)
next
  fix ts
  assume "tstz_ok sim_codec ts"
  then have ts: "- 100000000000000000000 \<le> ts" "ts < 10000000000000000000000"
    by (simp_all add: sim_codec_def)
  from zdiv_mono1 [OF ts(1), of 1000] have "- 100000000000000000000 \<le> ts div 1000 * 1000" by simp
  moreover have "ts div 1000 * 1000 \<le> ts" by (simp add: div_times_less_eq_dividend)
  ultimately show "tstz_ok sim_codec (tstz sim_codec ts)"
    using ts(2) by (simp add: sim_codec_def)
qed (simp add: sim_codec_def)

interpretation sim_db: pg_available "pgsim sim_codec" sim_codec sim_view sim_committed sim_in_tx
  sim_available
proof unfold_locales
qed (auto simp: sim_defs split: option.splits fault.splits prod.splits sum.splits if_splits list.splits)

section \<open>Facts about the statements\<close>

text \<open>What is parked can be stored again: needed when a replay moves it to the dead letters.\<close>

definition storable :: "pg_codec \<Rightarrow> tables \<Rightarrow> bool" where
  "storable c t \<longleftrightarrow>
     (\<forall>r \<in> set (pending_events t). text_ok c (pe_event_id r) \<and> text_ok c (pe_order_id r) \<and>
        tstz_ok c (pe_event_timestamp r) \<and> jsonb_ok c (pe_payload r))"

definition event_storable :: "pg_codec \<Rightarrow> OrderEvent \<Rightarrow> string \<Rightarrow> bool" where
  "event_storable c ev payload \<longleftrightarrow>
     text_ok c (EventID ev) \<and> text_ok c (OrderID ev) \<and> tstz_ok c (Timestamp ev) \<and> jsonb_ok c payload"

lemma storable_empty [simp]: "storable c empty_tables"
  by (simp add: storable_def empty_tables_def)

lemma status_check_iff [simp]: "status_check s \<longleftrightarrow> isKnown s"
  by (auto simp: status_check_def isKnown_def status_defs)

lemma select_next_pending_None_iff:
  "select_next_pending c oid t = None \<longleftrightarrow> (\<forall>r \<in> set (pending_events t). pe_order_id r \<noteq> oid)"
  by (auto simp: select_next_pending_def filter_empty_conv)

lemma select_next_pending_SomeD:
  "select_next_pending c oid t = Some r \<Longrightarrow> r \<in> set (pending_events t) \<and> pe_order_id r = oid"
  by (auto simp: select_next_pending_def dest!: least_by_in_set)

end
