(* ===== verification/Repository.thy ===== *)
theory Repository
  imports Go_Json Postgres
begin

text \<open>
  \<open>internal/repository/order_repository.go\<close>, function by function, over an arbitrary
  \<open>dbTransaction\<close>.  Every \<open>fmt.Errorf\<close> of the source is a constructor of
  \<open>repo_error\<close>; the replay loop may run forever on a database that keeps returning pending
  rows, so it is a \<open>partial_function (option)\<close> and the whole transaction is option-valued.
\<close>

section \<open>Results and errors\<close>

definition ClassificationDuplicateEvent :: string where
  "ClassificationDuplicateEvent = ''DUPLICATE_EVENT''"

definition outcomeReceived :: string where
  "outcomeReceived = ''RECEIVED''"

record ProcessResult =
  res_EventID :: string
  res_OrderID :: string
  res_Classification :: string
  res_Applied :: bool
  res_Duplicate :: bool
  res_Pending :: bool
  res_DeadLetter :: bool
  res_ReplayedPending :: int
  res_Reason :: string

text \<open>A composite literal leaves the fields it does not name at their zero values.\<close>

definition zeroResult :: ProcessResult where
  "zeroResult = \<lparr>res_EventID = '''', res_OrderID = '''', res_Classification = '''',
     res_Applied = False, res_Duplicate = False, res_Pending = False, res_DeadLetter = False,
     res_ReplayedPending = 0, res_Reason = ''''\<rparr>"

datatype validation_error =
    EventIDRequired | OrderIDRequired | TimestampRequired | StatusNotSupported string
  | PayloadNotObject json_error | PayloadNil

datatype repo_error =
    ErrValidate validation_error
  | ErrBegin db_error
  | ErrAcquireLock string db_error
  | ErrInsertProcessed string db_error
  | ErrLoadStatus string db_error
  | ErrUpdateOrder string db_error
  | ErrInsertOrder string db_error
  | ErrInsertHistory string db_error
  | ErrInsertPending string db_error
  | ErrInsertDeadLetter string db_error
  | ErrUpdateOutcome string string db_error
  | ErrLoadNextPending string db_error
  | ErrDeletePending string db_error
  | ErrReplay string repo_error
  | ErrClassify string string
  | ErrClassifyPending string string
  | ErrCommit string db_error

section \<open>Validation\<close>

definition isPersistableStatus :: "Status \<Rightarrow> bool" where
  "isPersistableStatus status \<longleftrightarrow>
     status = StatusCreated \<or> status = StatusPaid \<or> status = StatusShipped \<or>
     status = StatusCancelled"

definition validateEvent :: "OrderEvent \<Rightarrow> validation_error + string" where
  "validateEvent event =
     (if EventID event = '''' then Inl EventIDRequired
      else if OrderID event = '''' then Inl OrderIDRequired
      else if IsZero (Timestamp event) then Inl TimestampRequired
      else if \<not> isPersistableStatus (Status event) then Inl (StatusNotSupported (Status event))
      else (let payload = (if length (Payload event) = 0 then ''{}'' else Payload event)
            in case unmarshal_object payload of
                 Inl err \<Rightarrow> Inl (PayloadNotObject err)
               | Inr nonnil \<Rightarrow> if \<not> nonnil then Inl PayloadNil else Inr payload))"

section \<open>Statements\<close>

text \<open>\<open>if _, err := tx.Exec(...); err != nil { return fmt.Errorf(...) }\<close>\<close>

definition execG ::
  "'s dbTransaction \<Rightarrow> sql_stmt \<Rightarrow> (db_error \<Rightarrow> repo_error) \<Rightarrow> ('s, repo_error, nat) go" where
  "execG tx st wrap s =
     (case Exec tx s st of
        (s', Inl err) \<Rightarrow> Some (s', Inl (wrap err))
      | (s', Inr rows) \<Rightarrow> Some (s', Inr rows))"

definition insertProcessedEvent ::
  "'s dbTransaction \<Rightarrow> OrderEvent \<Rightarrow> ('s, repo_error, bool) go" where
  "insertProcessedEvent tx event =
     bindG (execG tx
         (InsertProcessedEvent (EventID event) (OrderID event) (Status event) (Timestamp event)
            outcomeReceived)
         (ErrInsertProcessed (EventID event)))
       (\<lambda>rowsAffected. okG (rowsAffected = 1))"

definition loadCurrentStatus ::
  "'s dbTransaction \<Rightarrow> string \<Rightarrow> ('s, repo_error, Status \<times> bool) go" where
  "loadCurrentStatus tx orderID s =
     (case QueryRowStatus tx s orderID of
        (s', Inl err) \<Rightarrow>
          if err = ErrNoRows then Some (s', Inr ('''', False))
          else Some (s', Inl (ErrLoadStatus orderID err))
      | (s', Inr current) \<Rightarrow> Some (s', Inr (current, True)))"

definition applyEvent ::
  "'s dbTransaction \<Rightarrow> OrderEvent \<Rightarrow> Status \<Rightarrow> bool \<Rightarrow> ('s, repo_error, unit) go" where
  "applyEvent tx event current orderExists =
     bindG
       (if orderExists
        then execG tx (UpdateOrder (OrderID event) (Status event) (Timestamp event))
               (ErrUpdateOrder (OrderID event))
        else execG tx (InsertOrder (OrderID event) (Status event) (Timestamp event))
               (ErrInsertOrder (OrderID event)))
       (\<lambda>_. let fromStatus = (if orderExists then Some current else None) in
         bindG
           (execG tx
              (InsertStatusHistory (EventID event) (OrderID event) fromStatus (Status event)
                 (Timestamp event))
              (ErrInsertHistory (EventID event)))
           (\<lambda>_. okG ()))"

definition insertPendingEvent ::
  "'s dbTransaction \<Rightarrow> OrderEvent \<Rightarrow> string \<Rightarrow> string \<Rightarrow> ('s, repo_error, unit) go" where
  "insertPendingEvent tx event reason payload =
     bindG
       (execG tx
          (InsertPendingEvent (EventID event) (OrderID event) (Status event) (Timestamp event)
             reason payload)
          (ErrInsertPending (EventID event)))
       (\<lambda>_. okG ())"

definition insertDeadLetterEvent ::
  "'s dbTransaction \<Rightarrow> OrderEvent \<Rightarrow> string \<Rightarrow> string \<Rightarrow> ('s, repo_error, unit) go" where
  "insertDeadLetterEvent tx event reason payload =
     bindG
       (execG tx
          (InsertDeadLetterEvent (EventID event) (OrderID event) (Status event) reason payload)
          (ErrInsertDeadLetter (EventID event)))
       (\<lambda>_. okG ())"

definition updateOutcome ::
  "'s dbTransaction \<Rightarrow> string \<Rightarrow> string \<Rightarrow> ('s, repo_error, unit) go" where
  "updateOutcome tx eventID outcome =
     bindG (execG tx (UpdateOutcome eventID outcome) (ErrUpdateOutcome eventID outcome))
       (\<lambda>_. okG ())"

definition deletePending :: "'s dbTransaction \<Rightarrow> string \<Rightarrow> ('s, repo_error, unit) go" where
  "deletePending tx eventID =
     bindG (execG tx (DeletePendingEvent eventID) (ErrDeletePending eventID)) (\<lambda>_. okG ())"

text \<open>The columns the query selects, as an event; \<open>reason\<close> is not among them.\<close>

definition pending_event :: "pending_row \<Rightarrow> OrderEvent" where
  "pending_event row =
     \<lparr>EventID = pe_event_id row, OrderID = pe_order_id row, Status = pe_status row,
      Timestamp = pe_event_timestamp row, Payload = pe_payload row\<rparr>"

definition loadNextPending ::
  "'s dbTransaction \<Rightarrow> string \<Rightarrow> ('s, repo_error, OrderEvent option) go" where
  "loadNextPending tx orderID s =
     (case QueryRowPending tx s orderID of
        (s', Inl err) \<Rightarrow>
          if err = ErrNoRows then Some (s', Inr None)
          else Some (s', Inl (ErrLoadNextPending orderID err))
      | (s', Inr row) \<Rightarrow> Some (s', Inr (Some (pending_event row))))"

section \<open>Replay of pending events\<close>

partial_function (option) replayPending ::
  "'s dbTransaction \<Rightarrow> string \<Rightarrow> Status \<Rightarrow> int \<Rightarrow> 's \<Rightarrow> ('s \<times> (repo_error + int)) option"
where
  "replayPending tx orderID current appliedCount s =
     bindG (loadNextPending tx orderID)
       (\<lambda>found s1.
         case found of
           None \<Rightarrow> okG appliedCount s1
         | Some event \<Rightarrow>
             (let transition = EvaluateTransition current (Status event);
                  class = Classification transition
              in if class = ClassificationApplied then
                   bindG (wrapG (ErrReplay (EventID event)) (applyEvent tx event current True))
                     (\<lambda>_. bindG (updateOutcome tx (EventID event) ClassificationApplied)
                       (\<lambda>_. bindG (deletePending tx (EventID event))
                         (\<lambda>_. replayPending tx orderID (Status event) (appliedCount + 1)))) s1
                 else if class = ClassificationDuplicateStatus then
                   bindG (updateOutcome tx (EventID event) ClassificationDuplicateStatus)
                     (\<lambda>_. bindG (deletePending tx (EventID event))
                       (\<lambda>_. replayPending tx orderID current appliedCount)) s1
                 else if class = ClassificationInvalidTransition then
                   bindG (insertDeadLetterEvent tx event (Reason transition) (Payload event))
                     (\<lambda>_. bindG (updateOutcome tx (EventID event) ClassificationInvalidTransition)
                       (\<lambda>_. bindG (deletePending tx (EventID event))
                         (\<lambda>_. replayPending tx orderID current appliedCount))) s1
                 else if class = ClassificationOutOfOrder then okG appliedCount s1
                 else failG (ErrClassifyPending (EventID event) class) s1)) s"

section \<open>One event, one transaction\<close>

definition commitResult ::
  "'s dbTransaction \<Rightarrow> ProcessResult \<Rightarrow> ('s, repo_error, ProcessResult) go" where
  "commitResult tx result s =
     (case Commit tx s of
        (s', Some err) \<Rightarrow> Some (s', Inl (ErrCommit (res_EventID result) err))
      | (s', None) \<Rightarrow> Some (s', Inr result))"

text \<open>The switch over the classification (lines 127 to 210), up to the final commit.\<close>

definition routeEvent ::
  "'s dbTransaction \<Rightarrow> OrderEvent \<Rightarrow> string \<Rightarrow> Status \<Rightarrow> bool \<Rightarrow> TransitionResult \<Rightarrow>
   ProcessResult \<Rightarrow> ('s, repo_error, ProcessResult) go" where
  "routeEvent tx event payload current exists transition result =
     (let class = Classification transition in
      if class = ClassificationApplied then
        bindG (applyEvent tx event current exists)
          (\<lambda>_. bindG (updateOutcome tx (EventID event) ClassificationApplied)
            (\<lambda>_. bindG (replayPending tx (OrderID event) (Status event) 0)
              (\<lambda>replayed. okG (result\<lparr>res_Applied := True, res_ReplayedPending := replayed\<rparr>))))
      else if class = ClassificationDuplicateStatus then
        bindG (updateOutcome tx (EventID event) ClassificationDuplicateStatus)
          (\<lambda>_. okG (result\<lparr>res_Duplicate := True\<rparr>))
      else if class = ClassificationOutOfOrder then
        bindG (insertPendingEvent tx event (Reason transition) payload)
          (\<lambda>_. bindG (updateOutcome tx (EventID event) ClassificationOutOfOrder)
            (\<lambda>_. okG (result\<lparr>res_Pending := True\<rparr>)))
      else if class = ClassificationInvalidTransition then
        bindG (insertDeadLetterEvent tx event (Reason transition) payload)
          (\<lambda>_. bindG (updateOutcome tx (EventID event) ClassificationInvalidTransition)
            (\<lambda>_. okG (result\<lparr>res_DeadLetter := True\<rparr>)))
      else failG (ErrClassify (EventID event) class))"

text \<open>The statements between \<open>begin\<close> and \<open>Commit\<close>: lines 87 to 210.\<close>

definition handleEvent ::
  "'s dbTransaction \<Rightarrow> OrderEvent \<Rightarrow> string \<Rightarrow> ('s, repo_error, ProcessResult) go" where
  "handleEvent tx event payload =
     bindG (execG tx (AdvisoryXactLock (OrderID event)) (ErrAcquireLock (OrderID event)))
       (\<lambda>_. bindG (insertProcessedEvent tx event)
         (\<lambda>inserted.
           if \<not> inserted then
             okG (zeroResult\<lparr>res_EventID := EventID event, res_OrderID := OrderID event,
               res_Classification := ClassificationDuplicateEvent, res_Duplicate := True,
               res_Reason := ''event ID has already been processed''\<rparr>)
           else
             bindG (loadCurrentStatus tx (OrderID event))
               (\<lambda>(current, exists).
                 let transition = EvaluateTransition current (Status event);
                     result = zeroResult\<lparr>res_EventID := EventID event,
                       res_OrderID := OrderID event,
                       res_Classification := Classification transition,
                       res_Reason := Reason transition\<rparr>
                 in routeEvent tx event payload current exists transition result)))"

text \<open>
  \<open>ProcessEventTx\<close>: validate, begin, run, commit; the deferred \<open>Rollback\<close> runs on every
  return after \<open>begin\<close> and its error is dropped.
\<close>

definition ProcessEventTx ::
  "'s dbTransaction \<Rightarrow> OrderEvent \<Rightarrow> ('s, repo_error, ProcessResult) go" where
  "ProcessEventTx tx event s =
     (case validateEvent event of
        Inl err \<Rightarrow> Some (s, Inl (ErrValidate err))
      | Inr payload \<Rightarrow>
          (case Begin tx s of
             (s1, Some err) \<Rightarrow> Some (s1, Inl (ErrBegin err))
           | (s1, None) \<Rightarrow>
               map_option (\<lambda>(s2, r). (fst (Rollback tx s2), r))
                 (bindG (handleEvent tx event payload) (commitResult tx) s1)))"

end
