(* ===== verification/Repository_Spec.thy ===== *)
theory Repository_Spec
  imports Repository
begin

text \<open>
  The repository's contract as functions on the tables, and the proof that the Go code
  implements it over every database session that satisfies the laws of \<open>pg_session\<close>.

  \<open>process_tables\<close> says in closed form what one committed transaction does to the tables and
  what it reports.  Its loop \<open>replay_tables\<close> is total: every round removes a pending row.
  Inside the locales, \<open>implements m f\<close> says that the computation \<open>m\<close> returns, keeps the
  durable tables, and on success turns the transaction's view \<open>t\<close> into \<open>fst (f t)\<close> with the
  result \<open>snd (f t)\<close>; \<open>succeeds m P\<close> says that on an available database it cannot fail
  when \<open>P\<close> holds of the view.  Both compose along \<open>bindG\<close>.
\<close>

section \<open>Effects of the steps in closed form\<close>

definition register :: "pg_codec \<Rightarrow> OrderEvent \<Rightarrow> tables \<Rightarrow> tables" where
  "register c ev t = t\<lparr>processed_events := (processed_events t)(EventID ev \<mapsto>
     \<lparr>pr_order_id = OrderID ev, pr_status = Status ev, pr_event_timestamp = tstz c (Timestamp ev),
      pr_outcome = outcomeReceived\<rparr>)\<rparr>"

definition accept :: "pg_codec \<Rightarrow> OrderEvent \<Rightarrow> string option \<Rightarrow> tables \<Rightarrow> tables" where
  "accept c ev from t =
     t\<lparr>orders := (orders t)(OrderID ev \<mapsto>
         \<lparr>current_status = Status ev, last_event_timestamp = tstz c (Timestamp ev)\<rparr>),
       order_status_history := order_status_history t @
         [\<lparr>h_event_id = EventID ev, h_order_id = OrderID ev, h_from_status = from,
           h_to_status = Status ev, h_event_timestamp = tstz c (Timestamp ev)\<rparr>]\<rparr>"

definition settle :: "string \<Rightarrow> string \<Rightarrow> tables \<Rightarrow> tables" where
  "settle eid outcome t = t\<lparr>processed_events := (processed_events t)(eid :=
     map_option (\<lambda>r. r\<lparr>pr_outcome := outcome\<rparr>) (processed_events t eid))\<rparr>"

definition defer_event :: "pg_codec \<Rightarrow> OrderEvent \<Rightarrow> string \<Rightarrow> string \<Rightarrow> tables \<Rightarrow> tables" where
  "defer_event c ev reason payload t = t\<lparr>pending_events := pending_events t @
     [\<lparr>pe_event_id = EventID ev, pe_order_id = OrderID ev, pe_status = Status ev,
       pe_event_timestamp = tstz c (Timestamp ev), pe_reason = reason,
       pe_payload = jsonb c payload\<rparr>]\<rparr>"

definition bury :: "pg_codec \<Rightarrow> OrderEvent \<Rightarrow> string \<Rightarrow> string \<Rightarrow> tables \<Rightarrow> tables" where
  "bury c ev reason payload t = t\<lparr>dead_letter_events := dead_letter_events t @
     [\<lparr>dl_event_id = EventID ev, dl_order_id = OrderID ev, dl_status = Status ev,
       dl_reason = reason, dl_payload = jsonb c payload\<rparr>]\<rparr>"

definition drop_pending :: "string \<Rightarrow> tables \<Rightarrow> tables" where
  "drop_pending eid t =
     t\<lparr>pending_events := filter (\<lambda>r. pe_event_id r \<noteq> eid) (pending_events t)\<rparr>"

text \<open>What one round of the replay loop does with the pending event \<open>ev\<close>.\<close>

definition replay_round :: "pg_codec \<Rightarrow> Status \<Rightarrow> OrderEvent \<Rightarrow> tables \<Rightarrow> tables" where
  "replay_round c current ev t =
     (let transition = EvaluateTransition current (Status ev);
          class = Classification transition
      in drop_pending (EventID ev) (settle (EventID ev) class
          (if class = ClassificationApplied then accept c ev (Some current) t
           else if class = ClassificationInvalidTransition
             then bury c ev (Reason transition) (Payload ev) t
           else t)))"

lemma drop_pending_decreases:
  assumes "row \<in> set (pending_events t)" and "pe_event_id row = eid"
  shows "length (pending_events (drop_pending eid t)) < length (pending_events t)"
proof -
  have "length (filter (\<lambda>r. pe_event_id r \<noteq> eid) (pending_events t)) < length (pending_events t)"
    using assms by (intro length_filter_less) auto
  then show ?thesis by (simp add: drop_pending_def)
qed

lemma effects_pending [simp]:
  "pending_events (register c ev t) = pending_events t"
  "pending_events (accept c ev from t) = pending_events t"
  "pending_events (settle eid out t) = pending_events t"
  "pending_events (bury c ev reason payload t) = pending_events t"
  by (simp_all add: register_def accept_def settle_def bury_def)

lemma pending_replay_round:
  "pending_events (replay_round c current ev t) =
     filter (\<lambda>r. pe_event_id r \<noteq> EventID ev) (pending_events t)"
  by (simp add: replay_round_def drop_pending_def Let_def)

lemma replay_round_decreases:
  assumes "select_next_pending c oid t = Some row"
  shows "length (pending_events (replay_round c current (pending_event row) t)) <
    length (pending_events t)"
proof -
  from assms have "row \<in> set (pending_events t)" by (simp add: select_next_pending_SomeD)
  then have "length (filter (\<lambda>r. pe_event_id r \<noteq> pe_event_id row) (pending_events t)) <
      length (pending_events t)"
    by (intro length_filter_less) auto
  then show ?thesis by (simp add: pending_replay_round pending_event_def)
qed

section \<open>The loop and the transaction on tables\<close>

function replay_tables :: "pg_codec \<Rightarrow> string \<Rightarrow> Status \<Rightarrow> int \<Rightarrow> tables \<Rightarrow> tables \<times> int" where
  "replay_tables c oid current n t =
     (case select_next_pending c oid t of
        None \<Rightarrow> (t, n)
      | Some row \<Rightarrow>
          (let ev = pending_event row;
               class = Classification (EvaluateTransition current (Status ev))
           in if class = ClassificationOutOfOrder then (t, n)
              else if class = ClassificationApplied
                then replay_tables c oid (Status ev) (n + 1) (replay_round c current ev t)
              else replay_tables c oid current n (replay_round c current ev t)))"
  by pat_completeness auto
termination
  by (relation "measure (\<lambda>(c, oid, current, n, t). length (pending_events t))")
     (auto simp: replay_round_decreases)

declare replay_tables.simps [simp del]

text \<open>Where a new event goes, by the classification of its transition.\<close>

definition route_tables ::
  "pg_codec \<Rightarrow> OrderEvent \<Rightarrow> string \<Rightarrow> string option \<Rightarrow> TransitionResult \<Rightarrow> ProcessResult \<Rightarrow>
   tables \<Rightarrow> tables \<times> ProcessResult" where
  "route_tables c ev payload from transition result t =
     (let eid = EventID ev; class = Classification transition in
      if class = ClassificationApplied then
        (case replay_tables c (OrderID ev) (Status ev) 0 (settle eid class (accept c ev from t)) of
           (t', k) \<Rightarrow> (t', result\<lparr>res_Applied := True, res_ReplayedPending := k\<rparr>))
      else if class = ClassificationDuplicateStatus then
        (settle eid class t, result\<lparr>res_Duplicate := True\<rparr>)
      else if class = ClassificationOutOfOrder then
        (settle eid class (defer_event c ev (Reason transition) payload t),
         result\<lparr>res_Pending := True\<rparr>)
      else
        (settle eid class (bury c ev (Reason transition) payload t),
         result\<lparr>res_DeadLetter := True\<rparr>))"

definition base_result :: "OrderEvent \<Rightarrow> string \<Rightarrow> string \<Rightarrow> ProcessResult" where
  "base_result ev class reason = zeroResult\<lparr>res_EventID := EventID ev, res_OrderID := OrderID ev,
     res_Classification := class, res_Reason := reason\<rparr>"

text \<open>\<open>process_tables\<close>: one event, validated, against the durable tables.\<close>

definition current_of :: "string option \<Rightarrow> Status" where
  "current_of from = (case from of None \<Rightarrow> '''' | Some st \<Rightarrow> st)"

definition process_tables ::
  "pg_codec \<Rightarrow> OrderEvent \<Rightarrow> string \<Rightarrow> tables \<Rightarrow> tables \<times> ProcessResult" where
  "process_tables c ev payload t =
     (if processed_events t (EventID ev) \<noteq> None then
        (t, (base_result ev ClassificationDuplicateEvent
               ''event ID has already been processed'')\<lparr>res_Duplicate := True\<rparr>)
      else
        (let from = select_current_status (OrderID ev) t;
             transition = EvaluateTransition (current_of from) (Status ev)
         in route_tables c ev payload from transition
              (base_result ev (Classification transition) (Reason transition))
              (register c ev t)))"

lemma process_result_ids:
  "res_EventID (snd (process_tables c ev payload t)) = EventID ev"
  "res_OrderID (snd (process_tables c ev payload t)) = OrderID ev"
  by (simp_all add: process_tables_def route_tables_def base_result_def Let_def split: prod.split)

lemma sql_effect_closed:
  "fst (sql_effect c (UpdateOutcome eid out) t) = settle eid out t"
  "fst (sql_effect c (InsertPendingEvent (EventID ev) (OrderID ev) (Status ev) (Timestamp ev)
      reason payload) t) = defer_event c ev reason payload t"
  "fst (sql_effect c (InsertDeadLetterEvent (EventID ev) (OrderID ev) (Status ev)
      reason payload) t) = bury c ev reason payload t"
  "fst (sql_effect c (DeletePendingEvent eid) t) = drop_pending eid t"
  by (simp_all add: settle_def defer_event_def bury_def drop_pending_def fun_upd_idem
      split: option.split)

lemma order_row_overwrite [simp]:
  "r\<lparr>current_status := st, last_event_timestamp := ts\<rparr> =
     \<lparr>current_status = st, last_event_timestamp = ts\<rparr>"
  by (cases r) simp

lemma accept_by_statements:
  assumes "sql_effect c (if exists then UpdateOrder (OrderID ev) (Status ev) (Timestamp ev)
      else InsertOrder (OrderID ev) (Status ev) (Timestamp ev)) t = (t1, n)"
    and "orders t1 (OrderID ev) \<noteq> None"
    and "sql_effect c (InsertStatusHistory (EventID ev) (OrderID ev) from (Status ev)
      (Timestamp ev)) t1 = (t2, m)"
  shows "accept c ev from t = t2"
proof -
  have t1: "t1 = t\<lparr>orders := (orders t)(OrderID ev \<mapsto>
      \<lparr>current_status = Status ev, last_event_timestamp = tstz c (Timestamp ev)\<rparr>)\<rparr>"
    using assms(1,2) by (auto split: if_splits option.splits)
  from assms(3) show ?thesis by (auto simp: accept_def t1)
qed

section \<open>Composition of implementations\<close>

context pg_session
begin

definition implements :: "('s, 'e, 'a) go \<Rightarrow> (tables \<Rightarrow> tables \<times> 'a) \<Rightarrow> bool" where
  "implements m f \<longleftrightarrow>
     (\<forall>s. in_tx s \<longrightarrow>
        (\<exists>s' r. m s = Some (s', r) \<and> committed s' = committed s \<and>
           (case r of Inl e \<Rightarrow> True | Inr a \<Rightarrow> in_tx s' \<and> f (view s) = (view s', a))))"

lemma implementsI:
  assumes "\<And>s. in_tx s \<Longrightarrow>
    \<exists>s' r. m s = Some (s', r) \<and> committed s' = committed s \<and>
      (case r of Inl e \<Rightarrow> True | Inr a \<Rightarrow> in_tx s' \<and> f (view s) = (view s', a))"
  shows "implements m f"
  using assms by (simp add: implements_def)

lemma implementsE:
  assumes "implements m f" and "in_tx s"
  obtains (error) s' e where "m s = Some (s', Inl e)" and "committed s' = committed s"
  | (ok) s' a where "m s = Some (s', Inr a)" and "committed s' = committed s"
      and "in_tx s'" and "f (view s) = (view s', a)"
proof -
  from assms obtain s' r where *: "m s = Some (s', r)" "committed s' = committed s"
    "case r of Inl e \<Rightarrow> True | Inr a \<Rightarrow> in_tx s' \<and> f (view s) = (view s', a)"
    unfolding implements_def by blast
  then show thesis by (cases r) (auto intro: that)
qed

lemma implements_okG: "implements (okG a) (\<lambda>t. (t, a))"
  by (simp add: implements_def)

lemma implements_failG: "implements (failG e) f"
  by (simp add: implements_def)

lemma implements_bindG:
  assumes "implements m f" and "\<And>a. implements (k a) (g a)"
    and "\<And>t. h t = (case f t of (t', a) \<Rightarrow> g a t')"
  shows "implements (bindG m k) h"
proof (rule implementsI)
  fix s
  assume "in_tx s"
  with assms(1) show "\<exists>s' r. bindG m k s = Some (s', r) \<and> committed s' = committed s \<and>
      (case r of Inl e \<Rightarrow> True | Inr a \<Rightarrow> in_tx s' \<and> h (view s) = (view s', a))"
  proof (cases rule: implementsE)
    case (error s' e)
    then show ?thesis by (simp add: bindG_def)
  next
    case (ok s1 a)
    from assms(2) ok(3) show ?thesis
      by (cases rule: implementsE [of "k a"]) (use ok assms(3) in \<open>auto simp: bindG_def\<close>)
  qed
qed

lemma implements_wrapG: "implements m f \<Longrightarrow> implements (wrapG w m) f"
  by (fastforce simp: wrapG_def intro!: implementsI elim!: implementsE)

lemma implements_execG: "implements (execG db st wrap) (sql_effect codec st)"
proof (rule implementsI)
  fix s
  assume "in_tx s"
  then show "\<exists>s' r. execG db st wrap s = Some (s', r) \<and> committed s' = committed s \<and>
      (case r of Inl e \<Rightarrow> True | Inr a \<Rightarrow> in_tx s' \<and> sql_effect codec st (view s) = (view s', a))"
    by (cases "Exec db s st"; cases "snd (Exec db s st)")
       (auto simp: execG_def dest: exec_ok exec_err)
qed

lemma implements_stmt:
  assumes "\<And>t. fst (sql_effect codec st t) = f t"
  shows "implements (bindG (execG db st wrap) (\<lambda>_. okG ())) (\<lambda>t. (f t, ()))"
  by (rule implements_bindG [OF implements_execG implements_okG])
     (simp add: assms [symmetric] split: prod.split)

lemma implements_steps:
  "implements (updateOutcome db eid out) (\<lambda>t. (settle eid out t, ()))"
  "implements (insertPendingEvent db ev reason payload)
     (\<lambda>t. (defer_event codec ev reason payload t, ()))"
  "implements (insertDeadLetterEvent db ev reason payload)
     (\<lambda>t. (bury codec ev reason payload t, ()))"
  "implements (deletePending db eid) (\<lambda>t. (drop_pending eid t, ()))"
  unfolding updateOutcome_def insertPendingEvent_def insertDeadLetterEvent_def deletePending_def
  by (rule implements_stmt, rule sql_effect_closed)+

lemma implements_insertProcessedEvent:
  "implements (insertProcessedEvent db ev)
     (\<lambda>t. if processed_events t (EventID ev) \<noteq> None then (t, False) else (register codec ev t, True))"
  unfolding insertProcessedEvent_def
  by (rule implements_bindG [OF implements_execG implements_okG]) (simp add: register_def)

lemma implements_loadCurrentStatus:
  "implements (loadCurrentStatus db oid)
     (\<lambda>t. (t, case select_current_status oid t of
                None \<Rightarrow> ('''', False) | Some st \<Rightarrow> (st, True)))"
proof (rule implementsI)
  fix s
  assume "in_tx s"
  moreover obtain s' r where "QueryRowStatus db s oid = (s', r)" by fastforce
  ultimately show "\<exists>s' r. loadCurrentStatus db oid s = Some (s', r) \<and> committed s' = committed s \<and>
      (case r of Inl e \<Rightarrow> True | Inr a \<Rightarrow> in_tx s' \<and>
        (view s, case select_current_status oid (view s) of
                   None \<Rightarrow> ('''', False) | Some st \<Rightarrow> (st, True)) = (view s', a))"
    using query_status [of s oid s' r]
    by (auto simp: loadCurrentStatus_def split: sum.splits)
qed

lemma implements_loadNextPending:
  "implements (loadNextPending db oid)
     (\<lambda>t. (t, map_option pending_event (select_next_pending codec oid t)))"
proof (rule implementsI)
  fix s
  assume "in_tx s"
  moreover obtain s' p where "QueryRowPending db s oid = (s', p)" by fastforce
  ultimately show "\<exists>s' r. loadNextPending db oid s = Some (s', r) \<and> committed s' = committed s \<and>
      (case r of Inl e \<Rightarrow> True | Inr a \<Rightarrow> in_tx s' \<and>
        (view s, map_option pending_event (select_next_pending codec oid (view s))) = (view s', a))"
    using query_pending [of s oid s' p]
    by (auto simp: loadNextPending_def split: sum.splits)
qed

text \<open>
  The history row can only be inserted when the order row exists, so after a successful
  \<open>applyEvent\<close> the order row holds the event's status on either branch.
\<close>

lemma implements_applyEvent:
  "implements (applyEvent db ev current exists)
     (\<lambda>t. (accept codec ev (if exists then Some current else None) t, ()))"
proof (rule implementsI)
  fix s
  assume tx: "in_tx s"
  let ?st1 = "if exists then UpdateOrder (OrderID ev) (Status ev) (Timestamp ev)
    else InsertOrder (OrderID ev) (Status ev) (Timestamp ev)"
  let ?st2 = "InsertStatusHistory (EventID ev) (OrderID ev)
    (if exists then Some current else None) (Status ev) (Timestamp ev)"
  obtain s1 r1 where e1: "Exec db s ?st1 = (s1, r1)" by fastforce
  obtain s2 r2 where e2: "Exec db s1 ?st2 = (s2, r2)" by fastforce
  show "\<exists>s' r. applyEvent db ev current exists s = Some (s', r) \<and> committed s' = committed s \<and>
      (case r of Inl e \<Rightarrow> True | Inr a \<Rightarrow> in_tx s' \<and>
        (accept codec ev (if exists then Some current else None) (view s), ()) = (view s', a))"
  proof (cases r1)
    case (Inl err)
    with e1 tx show ?thesis
      by (auto simp: applyEvent_def execG_def bindG_def dest: exec_err split: if_splits)
  next
    case (Inr n)
    with exec_ok [OF tx, of ?st1 s1] e1 have one: "in_tx s1" "committed s1 = committed s"
        "sql_effect codec ?st1 (view s) = (view s1, n)" by auto
    have run: "applyEvent db ev current exists s =
        (case r2 of Inl err \<Rightarrow> Some (s2, Inl (ErrInsertHistory (EventID ev) err))
         | Inr _ \<Rightarrow> Some (s2, Inr ()))"
      using e1 e2 Inr by (auto simp: applyEvent_def execG_def bindG_def split: sum.split)
    show ?thesis
    proof (cases r2)
      case (Inl err)
      with run one(2) e2 exec_err [OF one(1)] show ?thesis by auto
    next
      case (Inr m)
      with exec_ok [OF one(1), of ?st2 s2] e2 have two: "in_tx s2" "committed s2 = committed s1"
          "orders (view s1) (OrderID ev) \<noteq> None" "sql_effect codec ?st2 (view s1) = (view s2, m)"
        by auto
      then have "accept codec ev (if exists then Some current else None) (view s) = view s2"
        using one(3) by (intro accept_by_statements)
      with run Inr one(2) two show ?thesis by auto
    qed
  qed
qed

lemma implements_round_applied:
  assumes "Classification (EvaluateTransition current (Status ev)) = ClassificationApplied"
  shows "implements (bindG (wrapG w (applyEvent db ev current True))
        (\<lambda>_. bindG (updateOutcome db (EventID ev) ClassificationApplied)
          (\<lambda>_. deletePending db (EventID ev)))) (\<lambda>t. (replay_round codec current ev t, ()))"
  by (rule implements_bindG [OF implements_wrapG [OF implements_applyEvent]
        implements_bindG [OF implements_steps(1) implements_steps(4) refl]])
     (simp add: replay_round_def assms)

lemma implements_round_duplicate:
  assumes "Classification (EvaluateTransition current (Status ev)) = ClassificationDuplicateStatus"
  shows "implements (bindG (updateOutcome db (EventID ev) ClassificationDuplicateStatus)
          (\<lambda>_. deletePending db (EventID ev))) (\<lambda>t. (replay_round codec current ev t, ()))"
  by (rule implements_bindG [OF implements_steps(1) implements_steps(4)])
     (simp add: replay_round_def assms)

lemma implements_round_invalid:
  assumes "Classification (EvaluateTransition current (Status ev)) = ClassificationInvalidTransition"
  shows "implements (bindG (insertDeadLetterEvent db ev
          (Reason (EvaluateTransition current (Status ev))) (Payload ev))
        (\<lambda>_. bindG (updateOutcome db (EventID ev) ClassificationInvalidTransition)
          (\<lambda>_. deletePending db (EventID ev)))) (\<lambda>t. (replay_round codec current ev t, ()))"
  by (rule implements_bindG [OF implements_steps(3)
        implements_bindG [OF implements_steps(1) implements_steps(4) refl]])
     (simp add: replay_round_def assms Let_def)

text \<open>
  The loop: by induction along \<open>replay_tables\<close>, whose termination carries over to the Go
  loop since every round that succeeds has deleted the row it handled.
\<close>

definition reaches :: "'s \<Rightarrow> tables \<times> 'a \<Rightarrow> ('s \<times> ('e + 'a)) option \<Rightarrow> bool" where
  "reaches s target outcome \<longleftrightarrow>
     (\<exists>s' r. outcome = Some (s', r) \<and> committed s' = committed s \<and>
        (case r of Inl e \<Rightarrow> True | Inr a \<Rightarrow> in_tx s' \<and> target = (view s', a)))"

lemma implements_iff_reaches:
  "implements m f \<longleftrightarrow> (\<forall>s. in_tx s \<longrightarrow> reaches s (f (view s)) (m s))"
  by (simp add: implements_def reaches_def)

lemma reaches_bindG:
  assumes "implements m f" and "in_tx s"
    and "\<And>s1 a. in_tx s1 \<Longrightarrow> f (view s) = (view s1, a) \<Longrightarrow> reaches s1 target (k a s1)"
  shows "reaches s target (bindG m k s)"
  using assms(1,2)
proof (cases rule: implementsE)
  case (error s' e)
  then show ?thesis by (simp add: reaches_def bindG_def)
next
  case (ok s1 a)
  from assms(3) [OF ok(3,4)] ok(1,2) show ?thesis by (simp add: reaches_def bindG_def)
qed

lemma reaches_rest:
  assumes "implements m (\<lambda>t. (f t, ()))" and "in_tx s"
    and "\<And>s1. in_tx s1 \<Longrightarrow> view s1 = f (view s) \<Longrightarrow> reaches s1 target (k s1)"
  shows "reaches s target (bindG m (\<lambda>_. k) s)"
  using assms(1,2) by (rule reaches_bindG) (simp add: assms(3))

lemma replayPending_reaches:
  assumes "in_tx s"
  shows "reaches s (replay_tables codec oid current n (view s)) (replayPending db oid current n s)"
  using assms
proof (induction "length (pending_events (view s))" arbitrary: s current n rule: less_induct)
  case less
  show ?case
    unfolding replayPending.simps [of db oid current n s]
  proof (rule reaches_bindG [OF implements_loadNextPending less.prems], goal_cases)
    case (1 s1 found)
    then have tx: "in_tx s1" and v: "view s1 = view s"
      and found: "found = map_option pending_event (select_next_pending codec oid (view s))"
      by auto
    note unfold = replay_tables.simps [of codec oid current n "view s"]
    show ?case
    proof (cases "select_next_pending codec oid (view s)")
      case None
      with found v tx unfold show ?thesis by (simp add: reaches_def)
    next
      case (Some row)
      define ev where "ev = pending_event row"
      let ?cl = "Classification (EvaluateTransition current (Status ev))"
      have rest: "reaches s1 (replay_tables codec oid current' n' (replay_round codec current ev (view s)))
          (bindG m (\<lambda>_. replayPending db oid current' n') s1)"
        if "implements m (\<lambda>t. (replay_round codec current ev t, ()))" for m current' n'
        using that tx
      proof (rule reaches_rest)
        fix s2
        assume "in_tx s2" and "view s2 = replay_round codec current ev (view s1)"
        with v replay_round_decreases [OF Some, of current]
        show "reaches s2 (replay_tables codec oid current' n' (replay_round codec current ev (view s)))
            (replayPending db oid current' n' s2)"
          using less.hyps [of s2 current' n'] by (simp add: ev_def)
      qed
      note head = found Some v unfold ev_def [symmetric]
      from classification_total [of current "Status ev"]
      consider (a) "?cl = ClassificationApplied" | (d) "?cl = ClassificationDuplicateStatus"
        | (i) "?cl = ClassificationInvalidTransition" | (o) "?cl = ClassificationOutOfOrder"
        by blast
      then show ?thesis
      proof cases
        case a
        show ?thesis
          using rest [OF implements_round_applied [OF a]] by (simp add: head a bindG_assoc)
      next
        case d
        show ?thesis
          using rest [OF implements_round_duplicate [OF d]] by (simp add: head d bindG_assoc)
      next
        case i
        show ?thesis
          using rest [OF implements_round_invalid [OF i]] by (simp add: head i bindG_assoc Let_def)
      next
        case o
        with tx v show ?thesis by (simp add: head reaches_def)
      qed
    qed
  qed
qed

lemma implements_replayPending:
  "implements (replayPending db oid current n) (replay_tables codec oid current n)"
  by (simp add: implements_iff_reaches replayPending_reaches)

lemma implements_routeEvent:
  assumes "transition = EvaluateTransition current (Status ev)"
  shows "implements (routeEvent db ev payload current exists transition result)
    (route_tables codec ev payload (if exists then Some current else None) transition result)"
proof -
  let ?cl = "Classification transition"
  note defs = routeEvent_def route_tables_def
  from classification_total [of current "Status ev"] assms
  consider (a) "?cl = ClassificationApplied" | (d) "?cl = ClassificationDuplicateStatus"
    | (o) "?cl = ClassificationOutOfOrder" | (i) "?cl = ClassificationInvalidTransition"
    by blast
  then show ?thesis
  proof cases
    case a
    have "implements (bindG (applyEvent db ev current exists)
          (\<lambda>_. bindG (updateOutcome db (EventID ev) ClassificationApplied)
            (\<lambda>_. bindG (replayPending db (OrderID ev) (Status ev) 0)
              (\<lambda>replayed. okG (result\<lparr>res_Applied := True, res_ReplayedPending := replayed\<rparr>)))))
        (route_tables codec ev payload (if exists then Some current else None) transition result)"
      by (rule implements_bindG [OF implements_applyEvent implements_bindG [OF implements_steps(1)
            implements_bindG [OF implements_replayPending implements_okG refl] refl]])
         (simp add: route_tables_def a)
    with a show ?thesis by (simp add: routeEvent_def)
  next
    case d
    have "implements (bindG (updateOutcome db (EventID ev) ClassificationDuplicateStatus)
          (\<lambda>_. okG (result\<lparr>res_Duplicate := True\<rparr>)))
        (route_tables codec ev payload (if exists then Some current else None) transition result)"
      by (rule implements_bindG [OF implements_steps(1) implements_okG])
         (simp add: route_tables_def d)
    with d show ?thesis by (simp add: routeEvent_def)
  next
    case o
    have "implements (bindG (insertPendingEvent db ev (Reason transition) payload)
          (\<lambda>_. bindG (updateOutcome db (EventID ev) ClassificationOutOfOrder)
            (\<lambda>_. okG (result\<lparr>res_Pending := True\<rparr>))))
        (route_tables codec ev payload (if exists then Some current else None) transition result)"
      by (rule implements_bindG [OF implements_steps(2)
            implements_bindG [OF implements_steps(1) implements_okG refl]])
         (simp add: route_tables_def o)
    with o show ?thesis by (simp add: routeEvent_def)
  next
    case i
    have "implements (bindG (insertDeadLetterEvent db ev (Reason transition) payload)
          (\<lambda>_. bindG (updateOutcome db (EventID ev) ClassificationInvalidTransition)
            (\<lambda>_. okG (result\<lparr>res_DeadLetter := True\<rparr>))))
        (route_tables codec ev payload (if exists then Some current else None) transition result)"
      by (rule implements_bindG [OF implements_steps(3)
            implements_bindG [OF implements_steps(1) implements_okG refl]])
         (simp add: route_tables_def i)
    with i show ?thesis by (simp add: routeEvent_def)
  qed
qed

definition route_loaded :: "OrderEvent \<Rightarrow> string \<Rightarrow> Status \<times> bool \<Rightarrow> tables \<Rightarrow> tables \<times> ProcessResult" where
  "route_loaded ev payload loaded =
     (let transition = EvaluateTransition (fst loaded) (Status ev) in
      route_tables codec ev payload (if snd loaded then Some (fst loaded) else None) transition
        (base_result ev (Classification transition) (Reason transition)))"

lemma implements_loaded:
  "implements
     (case loaded of (current, exists) \<Rightarrow>
        let transition = EvaluateTransition current (Status ev);
            result = zeroResult\<lparr>res_EventID := EventID ev, res_OrderID := OrderID ev,
              res_Classification := Classification transition, res_Reason := Reason transition\<rparr>
        in routeEvent db ev payload current exists transition result)
     (route_loaded ev payload loaded)"
proof (cases loaded)
  case (Pair current exists)
  then show ?thesis
    using implements_routeEvent [where current = current and exists = exists and ev = ev, OF refl]
    by (simp only: route_loaded_def Let_def base_result_def prod.case fst_conv snd_conv)
qed

lemma implements_inserted:
  "implements
     (if \<not> inserted then
        okG (zeroResult\<lparr>res_EventID := EventID ev, res_OrderID := OrderID ev,
          res_Classification := ClassificationDuplicateEvent, res_Duplicate := True,
          res_Reason := ''event ID has already been processed''\<rparr>)
      else bindG (loadCurrentStatus db (OrderID ev))
        (\<lambda>(current, exists).
          let transition = EvaluateTransition current (Status ev);
              result = zeroResult\<lparr>res_EventID := EventID ev, res_OrderID := OrderID ev,
                res_Classification := Classification transition, res_Reason := Reason transition\<rparr>
          in routeEvent db ev payload current exists transition result))
     (\<lambda>t. if \<not> inserted then
         (t, (base_result ev ClassificationDuplicateEvent
               ''event ID has already been processed'')\<lparr>res_Duplicate := True\<rparr>)
       else route_loaded ev payload
         (case select_current_status (OrderID ev) t of None \<Rightarrow> ('''', False) | Some st \<Rightarrow> (st, True)) t)"
proof (cases inserted)
  case False
  then show ?thesis by (simp add: implements_okG base_result_def zeroResult_def)
next
  case True
  have "implements (bindG (loadCurrentStatus db (OrderID ev))
        (\<lambda>(current, exists).
          let transition = EvaluateTransition current (Status ev);
              result = zeroResult\<lparr>res_EventID := EventID ev, res_OrderID := OrderID ev,
                res_Classification := Classification transition, res_Reason := Reason transition\<rparr>
          in routeEvent db ev payload current exists transition result))
      (\<lambda>t. route_loaded ev payload
         (case select_current_status (OrderID ev) t of None \<Rightarrow> ('''', False) | Some st \<Rightarrow> (st, True)) t)"
    by (rule implements_bindG [OF implements_loadCurrentStatus implements_loaded]) simp
  with True show ?thesis by simp
qed

lemma implements_handleEvent:
  "implements (handleEvent db ev payload) (process_tables codec ev payload)"
  unfolding handleEvent_def
  by (rule implements_bindG [OF implements_execG
        implements_bindG [OF implements_insertProcessedEvent implements_inserted refl]])
     (auto simp: process_tables_def register_def select_current_status_def current_of_def Let_def
       route_loaded_def split: option.split)

text \<open>The whole of \<open>ProcessEventTx\<close>: its outcome and the durable tables it leaves.\<close>

lemma ProcessEventTx_cases:
  obtains (invalid) err where "validateEvent ev = Inl err"
      and "ProcessEventTx db ev s = Some (s, Inl (ErrValidate err))"
  | (aborted) payload s' e where "validateEvent ev = Inr payload"
      and "ProcessEventTx db ev s = Some (s', Inl e)" and "committed s' = committed s"
  | (unknown) payload s' e where "validateEvent ev = Inr payload"
      and "ProcessEventTx db ev s = Some (s', Inl (ErrCommit (EventID ev) e))"
      and "committed s' = committed s \<or>
        committed s' = fst (process_tables codec ev payload (committed s))"
  | (finished) payload s' where "validateEvent ev = Inr payload"
      and "ProcessEventTx db ev s =
        Some (s', Inr (snd (process_tables codec ev payload (committed s))))"
      and "committed s' = fst (process_tables codec ev payload (committed s))"
proof (cases "validateEvent ev")
  case (Inl err)
  then show thesis by (intro invalid) (simp_all add: ProcessEventTx_def)
next
  case (Inr payload)
  obtain s1 b where b: "Begin db s = (s1, b)" by fastforce
  show thesis
  proof (cases b)
    case (Some err)
    with b Inr begin_err [of s s1 err] show thesis
      by (intro aborted [of payload s1 "ErrBegin err"]) (simp_all add: ProcessEventTx_def)
  next
    case None
    with b begin_ok have s1: "in_tx s1" "view s1 = committed s" "committed s1 = committed s"
      by blast+
    have run: "ProcessEventTx db ev s = map_option (\<lambda>(s2, r). (fst (Rollback db s2), r))
        (bindG (handleEvent db ev payload) (commitResult db) s1)"
      using b None Inr by (simp add: ProcessEventTx_def)
    from implements_handleEvent [of ev payload] s1(1) show thesis
    proof (cases rule: implementsE)
      case (error s2 e)
      with run s1 Inr show thesis
        by (intro aborted [of payload "fst (Rollback db s2)" e]) (simp_all add: bindG_def rollback)
    next
      case (ok s2 a)
      have eid: "res_EventID a = EventID ev"
        using ok(4) process_result_ids(1) [of codec ev payload "view s1"] by simp
      obtain s3 ce where ce: "Commit db s2 = (s3, ce)" by fastforce
      show thesis
      proof (cases ce)
        case None
        with run ok ce s1 commit_ok [OF ok(3)] Inr show thesis
          by (intro finished) (auto simp: bindG_def commitResult_def rollback)
      next
        case (Some e)
        with run ok ce s1 commit_err [OF ok(3), of s3 e] Inr eid show thesis
          by (intro unknown) (auto simp: bindG_def commitResult_def rollback)
      qed
    qed
  qed
qed

lemma ok_run:
  assumes "ProcessEventTx db ev s = Some (s', Inr r)"
  obtains payload where "validateEvent ev = Inr payload"
    and "process_tables codec ev payload (committed s) = (committed s', r)"
  using assms by (cases rule: ProcessEventTx_cases [of ev s]) auto

lemma failed_run:
  assumes "ProcessEventTx db ev s = Some (s', Inl e)"
  obtains (same) "committed s' = committed s"
  | (applied) payload where "validateEvent ev = Inr payload"
      and "committed s' = fst (process_tables codec ev payload (committed s))"
  using assms by (cases rule: ProcessEventTx_cases [of ev s]) auto

end

end
