(* ===== verification/Repository_Invariant.thy ===== *)
theory Repository_Invariant
  imports Repository_Spec
begin

text \<open>
  The invariant of the durable tables, kept by every committed transaction:
  \<^item> \<open>materialized\<close>: an order's row is the last entry of its history, and its history is a
    chain of transitions the state machine allows, starting from no order;
  \<^item> \<open>accounted\<close>: every processed event has exactly one final outcome, and the outcome says
    in which table its one row is (history, pending, dead letters, or none for a duplicate
    status);
  \<^item> \<open>matching\<close>: a row in one of these tables agrees with the idempotency record on order and
    status;
  \<^item> \<open>settled\<close>: the next pending event of an order is still waiting for a prerequisite.
\<close>

section \<open>The invariant\<close>

definition history_of :: "string \<Rightarrow> tables \<Rightarrow> history_row list" where
  "history_of oid t = filter (\<lambda>h. h_order_id h = oid) (order_status_history t)"

definition pending_of :: "string \<Rightarrow> tables \<Rightarrow> pending_row list" where
  "pending_of oid t = filter (\<lambda>r. pe_order_id r = oid) (pending_events t)"

definition dead_letters_of :: "string \<Rightarrow> tables \<Rightarrow> dead_letter_row list" where
  "dead_letters_of oid t = filter (\<lambda>r. dl_order_id r = oid) (dead_letter_events t)"

fun chained :: "string option \<Rightarrow> history_row list \<Rightarrow> bool" where
  "chained from [] \<longleftrightarrow> True"
| "chained from (h # hs) \<longleftrightarrow>
     h_from_status h = from \<and>
     Classification (EvaluateTransition (current_of from) (h_to_status h)) = ClassificationApplied \<and>
     chained (Some (h_to_status h)) hs"

definition last_row :: "history_row list \<Rightarrow> order_row option" where
  "last_row hs =
     (if hs = [] then None
      else Some \<lparr>current_status = h_to_status (last hs),
                 last_event_timestamp = h_event_timestamp (last hs)\<rparr>)"

definition materialized :: "string \<Rightarrow> tables \<Rightarrow> bool" where
  "materialized oid t \<longleftrightarrow>
     chained None (history_of oid t) \<and> orders t oid = last_row (history_of oid t)"

definition outcome_of :: "tables \<Rightarrow> string \<Rightarrow> string option" where
  "outcome_of t eid = map_option pr_outcome (processed_events t eid)"

definition final_outcomes :: "string set" where
  "final_outcomes = {ClassificationApplied, ClassificationDuplicateStatus,
     ClassificationOutOfOrder, ClassificationInvalidTransition}"

definition accounted :: "tables \<Rightarrow> bool" where
  "accounted t \<longleftrightarrow>
     distinct (map h_event_id (order_status_history t)) \<and>
     distinct (map pe_event_id (pending_events t)) \<and>
     distinct (map dl_event_id (dead_letter_events t)) \<and>
     (\<forall>eid.
       (eid \<in> h_event_id ` set (order_status_history t) \<longleftrightarrow>
          outcome_of t eid = Some ClassificationApplied) \<and>
       (eid \<in> pe_event_id ` set (pending_events t) \<longleftrightarrow>
          outcome_of t eid = Some ClassificationOutOfOrder) \<and>
       (eid \<in> dl_event_id ` set (dead_letter_events t) \<longleftrightarrow>
          outcome_of t eid = Some ClassificationInvalidTransition) \<and>
       pred_option (\<lambda>out. out \<in> final_outcomes) (outcome_of t eid))"

definition recorded :: "tables \<Rightarrow> string \<Rightarrow> string \<Rightarrow> string \<Rightarrow> bool" where
  "recorded t eid oid st \<longleftrightarrow>
     (\<exists>r. processed_events t eid = Some r \<and> pr_order_id r = oid \<and> pr_status r = st)"

definition matching :: "tables \<Rightarrow> bool" where
  "matching t \<longleftrightarrow>
     (\<forall>h \<in> set (order_status_history t). recorded t (h_event_id h) (h_order_id h) (h_to_status h)) \<and>
     (\<forall>r \<in> set (pending_events t).
        recorded t (pe_event_id r) (pe_order_id r) (pe_status r) \<and> isKnown (pe_status r)) \<and>
     (\<forall>r \<in> set (dead_letter_events t). recorded t (dl_event_id r) (dl_order_id r) (dl_status r))"

definition consistent :: "tables \<Rightarrow> bool" where
  "consistent t \<longleftrightarrow> (\<forall>oid. materialized oid t) \<and> accounted t \<and> matching t"

text \<open>An empty database is consistent.\<close>

lemma consistent_empty: "consistent empty_tables"
  by (simp add: consistent_def materialized_def accounted_def matching_def empty_tables_def
      history_of_def last_row_def outcome_of_def)

section \<open>New events\<close>

text \<open>A fresh event's idempotency record with its final outcome.\<close>

definition record_as :: "pg_codec \<Rightarrow> OrderEvent \<Rightarrow> string \<Rightarrow> tables \<Rightarrow> tables" where
  "record_as c ev outcome t = t\<lparr>processed_events := (processed_events t)(EventID ev \<mapsto>
     \<lparr>pr_order_id = OrderID ev, pr_status = Status ev, pr_event_timestamp = tstz c (Timestamp ev),
      pr_outcome = outcome\<rparr>)\<rparr>"

lemma settle_register:
  "settle (EventID ev) out (register c ev t) = record_as c ev out t"
  "settle (EventID ev) out (accept c ev from (register c ev t)) = accept c ev from (record_as c ev out t)"
  "settle (EventID ev) out (defer_event c ev reason payload (register c ev t)) =
     defer_event c ev reason payload (record_as c ev out t)"
  "settle (EventID ev) out (bury c ev reason payload (register c ev t)) =
     bury c ev reason payload (record_as c ev out t)"
  by (simp_all add: settle_def register_def record_as_def accept_def defer_event_def bury_def)

lemma chained_snoc:
  "chained prev (hs @ [h]) \<longleftrightarrow>
     chained prev hs \<and>
     h_from_status h = (if hs = [] then prev else Some (h_to_status (last hs))) \<and>
     Classification (EvaluateTransition
       (current_of (if hs = [] then prev else Some (h_to_status (last hs)))) (h_to_status h)) =
       ClassificationApplied"
  by (induction hs arbitrary: prev) auto

lemma materialized_status:
  "materialized oid t \<Longrightarrow> select_current_status oid t =
     (if history_of oid t = [] then None else Some (h_to_status (last (history_of oid t))))"
  by (simp add: materialized_def select_current_status_def last_row_def)

lemma history_of_accept:
  "history_of oid (accept c ev from t) = history_of oid t @
     (if OrderID ev = oid then [\<lparr>h_event_id = EventID ev, h_order_id = OrderID ev,
        h_from_status = from, h_to_status = Status ev, h_event_timestamp = tstz c (Timestamp ev)\<rparr>]
      else [])"
  by (simp add: history_of_def accept_def)

lemma materialized_accept:
  assumes "materialized oid t"
    and "oid = OrderID ev \<Longrightarrow> from = select_current_status oid t"
    and "oid = OrderID ev \<Longrightarrow>
      Classification (EvaluateTransition (current_of from) (Status ev)) = ClassificationApplied"
  shows "materialized oid (accept c ev from t)"
proof (cases "oid = OrderID ev")
  case True
  have "orders (accept c ev from t) oid = last_row (history_of oid (accept c ev from t))"
    by (simp add: True history_of_accept last_row_def) (simp add: accept_def)
  moreover have "chained None (history_of oid (accept c ev from t))"
    using assms True materialized_status [OF assms(1)]
    by (auto simp: history_of_accept chained_snoc materialized_def split: if_splits)
  ultimately show ?thesis by (simp add: materialized_def)
next
  case False
  then have "orders (accept c ev from t) oid = orders t oid" by (simp add: accept_def)
  with False assms(1) show ?thesis by (simp add: materialized_def history_of_accept)
qed

text \<open>The other effects touch neither an order row nor the history.\<close>

lemma materialized_frame [simp]:
  "materialized oid (register c ev t) = materialized oid t"
  "materialized oid (record_as c ev out t) = materialized oid t"
  "materialized oid (settle eid out t) = materialized oid t"
  "materialized oid (defer_event c ev reason payload t) = materialized oid t"
  "materialized oid (bury c ev reason payload t) = materialized oid t"
  "materialized oid (drop_pending eid t) = materialized oid t"
  by (simp_all add: materialized_def history_of_def register_def record_as_def settle_def
      defer_event_def bury_def drop_pending_def)

lemma status_frame [simp]:
  "select_current_status oid (register c ev t) = select_current_status oid t"
  "select_current_status oid (record_as c ev out t) = select_current_status oid t"
  "select_current_status oid (settle eid out t) = select_current_status oid t"
  "select_current_status oid (defer_event c ev reason payload t) = select_current_status oid t"
  "select_current_status oid (bury c ev reason payload t) = select_current_status oid t"
  "select_current_status oid (drop_pending eid t) = select_current_status oid t"
  "select_current_status oid (accept c ev from t) =
     (if oid = OrderID ev then Some (Status ev) else select_current_status oid t)"
  by (simp_all add: select_current_status_def register_def record_as_def settle_def
      defer_event_def bury_def drop_pending_def accept_def)

lemma outcome_of_effects [simp]:
  "outcome_of (record_as c ev out t) = (outcome_of t)(EventID ev \<mapsto> out)"
  "outcome_of (accept c ev from t) = outcome_of t"
  "outcome_of (defer_event c ev reason payload t) = outcome_of t"
  "outcome_of (bury c ev reason payload t) = outcome_of t"
  "outcome_of (drop_pending eid t) = outcome_of t"
  by (simp_all add: outcome_of_def fun_eq_iff record_as_def accept_def defer_event_def bury_def
      drop_pending_def)

lemma outcome_of_settle:
  "outcome_of t eid \<noteq> None \<Longrightarrow> outcome_of (settle eid out t) = (outcome_of t)(eid \<mapsto> out)"
  by (auto simp: outcome_of_def settle_def fun_eq_iff)

lemma rows_of_effects [simp]:
  "order_status_history (record_as c ev out t) = order_status_history t"
  "order_status_history (settle eid out t) = order_status_history t"
  "order_status_history (defer_event c ev reason payload t) = order_status_history t"
  "order_status_history (bury c ev reason payload t) = order_status_history t"
  "order_status_history (drop_pending eid t) = order_status_history t"
  "pending_events (record_as c ev out t) = pending_events t"
  "dead_letter_events (record_as c ev out t) = dead_letter_events t"
  "dead_letter_events (settle eid out t) = dead_letter_events t"
  "dead_letter_events (accept c ev from t) = dead_letter_events t"
  "dead_letter_events (defer_event c ev reason payload t) = dead_letter_events t"
  "dead_letter_events (drop_pending eid t) = dead_letter_events t"
  by (simp_all add: record_as_def settle_def accept_def defer_event_def bury_def drop_pending_def)

lemma ids_of_effects [simp]:
  "map h_event_id (order_status_history (accept c ev from t)) =
     map h_event_id (order_status_history t) @ [EventID ev]"
  "h_event_id ` set (order_status_history (accept c ev from t)) =
     insert (EventID ev) (h_event_id ` set (order_status_history t))"
  "map pe_event_id (pending_events (defer_event c ev reason payload t)) =
     map pe_event_id (pending_events t) @ [EventID ev]"
  "pe_event_id ` set (pending_events (defer_event c ev reason payload t)) =
     insert (EventID ev) (pe_event_id ` set (pending_events t))"
  "map dl_event_id (dead_letter_events (bury c ev reason payload t)) =
     map dl_event_id (dead_letter_events t) @ [EventID ev]"
  "dl_event_id ` set (dead_letter_events (bury c ev reason payload t)) =
     insert (EventID ev) (dl_event_id ` set (dead_letter_events t))"
  "pe_event_id ` set (pending_events (drop_pending eid t)) =
     pe_event_id ` set (pending_events t) - {eid}"
  by (auto simp: accept_def defer_event_def bury_def drop_pending_def)

lemma distinct_drop_pending [simp]:
  "distinct (map pe_event_id (pending_events t)) \<Longrightarrow>
   distinct (map pe_event_id (pending_events (drop_pending eid t)))"
  by (simp add: drop_pending_def distinct_map_filter)

lemma accounted_ids:
  assumes "accounted t"
  shows "eid \<in> h_event_id ` set (order_status_history t) \<longleftrightarrow> outcome_of t eid = Some ClassificationApplied"
    and "eid \<in> pe_event_id ` set (pending_events t) \<longleftrightarrow> outcome_of t eid = Some ClassificationOutOfOrder"
    and "eid \<in> dl_event_id ` set (dead_letter_events t) \<longleftrightarrow>
      outcome_of t eid = Some ClassificationInvalidTransition"
  using assms unfolding accounted_def by blast+

lemma accounted_new:
  assumes "accounted t" and fresh: "outcome_of t (EventID ev) = None"
  shows "accounted (record_as c ev ClassificationDuplicateStatus t)"
    and "accounted (accept c ev from (record_as c ev ClassificationApplied t))"
    and "accounted (defer_event c ev reason payload (record_as c ev ClassificationOutOfOrder t))"
    and "accounted (bury c ev reason payload (record_as c ev ClassificationInvalidTransition t))"
proof -
  note ids = accounted_ids [OF assms(1), of "EventID ev", unfolded fresh]
  have out: "\<forall>eid. pred_option (\<lambda>out. out \<in> final_outcomes) (outcome_of t eid)"
    using assms(1) by (simp add: accounted_def)
  note new = assms(1) ids out
  show "accounted (record_as c ev ClassificationDuplicateStatus t)"
    using new by (simp add: accounted_def final_outcomes_def)
  show "accounted (accept c ev from (record_as c ev ClassificationApplied t))"
    using new by (simp add: accounted_def final_outcomes_def)
  show "accounted (defer_event c ev reason payload (record_as c ev ClassificationOutOfOrder t))"
    using new by (simp add: accounted_def final_outcomes_def)
  show "accounted (bury c ev reason payload (record_as c ev ClassificationInvalidTransition t))"
    using new by (simp add: accounted_def final_outcomes_def)
qed

lemma recorded_effects [simp]:
  "recorded (settle eid' out t) eid oid st = recorded t eid oid st"
  "recorded (accept c ev from t) eid oid st = recorded t eid oid st"
  "recorded (defer_event c ev reason payload t) eid oid st = recorded t eid oid st"
  "recorded (bury c ev reason payload t) eid oid st = recorded t eid oid st"
  "recorded (drop_pending eid' t) eid oid st = recorded t eid oid st"
  "recorded (record_as c ev out t) eid oid st =
     (if eid = EventID ev then oid = OrderID ev \<and> st = Status ev else recorded t eid oid st)"
  by (auto simp: recorded_def settle_def accept_def defer_event_def bury_def drop_pending_def
      record_as_def)

lemma recorded_outcome: "recorded t eid oid st \<Longrightarrow> outcome_of t eid \<noteq> None"
  by (auto simp: recorded_def outcome_of_def)

lemma matching_new:
  assumes "matching t" and fresh: "outcome_of t (EventID ev) = None" and "isKnown (Status ev)"
  shows "matching (record_as c ev out t)"
    and "matching (accept c ev from (record_as c ev out t))"
    and "matching (defer_event c ev reason payload (record_as c ev out t))"
    and "matching (bury c ev reason payload (record_as c ev out t))"
proof -
  have "\<not> recorded t (EventID ev) oid st" for oid st
    using fresh recorded_outcome by blast
  then show rec: "matching (record_as c ev out t)"
    using assms(1) by (auto simp: matching_def)
  show "matching (accept c ev from (record_as c ev out t))"
    using rec by (auto simp: matching_def) (auto simp: accept_def)
  show "matching (defer_event c ev reason payload (record_as c ev out t))"
    using rec assms(3) by (auto simp: matching_def) (auto simp: defer_event_def)
  show "matching (bury c ev reason payload (record_as c ev out t))"
    using rec by (auto simp: matching_def) (auto simp: bury_def)
qed

section \<open>Replay rounds\<close>

lemma pending_event_sel [simp]:
  "EventID (pending_event row) = pe_event_id row" "OrderID (pending_event row) = pe_order_id row"
  "Status (pending_event row) = pe_status row"
  "Timestamp (pending_event row) = pe_event_timestamp row"
  "Payload (pending_event row) = pe_payload row"
  by (simp_all add: pending_event_def)

lemma matching_settle [simp]: "matching (settle eid out t) = matching t"
  by (simp add: matching_def)

lemma matching_drop: "matching t \<Longrightarrow> matching (drop_pending eid t)"
  by (auto simp: matching_def) (auto simp: drop_pending_def)

lemma matching_replay_round:
  assumes "matching t" and "row \<in> set (pending_events t)"
  shows "matching (replay_round c current (pending_event row) t)"
proof -
  have "recorded t (pe_event_id row) (pe_order_id row) (pe_status row)"
    using assms by (auto simp: matching_def)
  then have "matching (accept c (pending_event row) (Some current) t)"
    and "matching (bury c (pending_event row) reason payload t)" for reason payload
    using assms(1) by (auto simp: matching_def) (auto simp: accept_def bury_def)
  with assms(1) show ?thesis by (simp add: replay_round_def Let_def matching_drop)
qed

lemma accounted_replay_round:
  assumes acc: "accounted t" and row: "row \<in> set (pending_events t)"
    and moved: "Classification (EvaluateTransition current (pe_status row)) \<noteq> ClassificationOutOfOrder"
  shows "accounted (replay_round c current (pending_event row) t)"
proof -
  let ?eid = "pe_event_id row"
  let ?cl = "Classification (EvaluateTransition current (pe_status row))"
  have was: "outcome_of t ?eid = Some ClassificationOutOfOrder"
    using row accounted_ids(2) [OF acc] by blast
  note ids = accounted_ids [OF acc, of ?eid, unfolded was]
  have out: "\<forall>eid. pred_option (\<lambda>out. out \<in> final_outcomes) (outcome_of t eid)"
    using acc by (simp add: accounted_def)
  from classification_total [of current "pe_status row"] moved
  consider "?cl = ClassificationApplied" | "?cl = ClassificationDuplicateStatus"
    | "?cl = ClassificationInvalidTransition"
    by blast
  then show ?thesis
  proof cases
    case 1
    with acc ids out was show ?thesis
      by (simp add: accounted_def final_outcomes_def replay_round_def outcome_of_settle)
  next
    case 2
    with acc ids out was show ?thesis
      by (simp add: accounted_def final_outcomes_def replay_round_def outcome_of_settle)
  next
    case 3
    with acc ids out was show ?thesis
      by (simp add: accounted_def final_outcomes_def replay_round_def outcome_of_settle Let_def)
  qed
qed

lemma materialized_replay_round:
  assumes "materialized oid t"
    and "select_current_status (pe_order_id row) t = Some current"
  shows "materialized oid (replay_round c current (pending_event row) t)"
  using assms
  by (simp add: replay_round_def Let_def materialized_accept current_of_def)

lemma status_replay_round:
  assumes "select_current_status (pe_order_id row) t = Some current"
  shows "select_current_status oid (replay_round c current (pending_event row) t) =
    (if oid = pe_order_id row \<and>
        Classification (EvaluateTransition current (pe_status row)) = ClassificationApplied
     then Some (pe_status row) else select_current_status oid t)"
  using assms by (simp add: replay_round_def Let_def)

lemma consistent_replay_round:
  assumes "consistent t" and "row \<in> set (pending_events t)"
    and "select_current_status (pe_order_id row) t = Some current"
    and "Classification (EvaluateTransition current (pe_status row)) \<noteq> ClassificationOutOfOrder"
  shows "consistent (replay_round c current (pending_event row) t)"
  using assms
  by (simp add: consistent_def materialized_replay_round accounted_replay_round matching_replay_round)

text \<open>An induction rule for facts about the loop, in the shape of its rounds.\<close>

lemma replay_tables_rounds [case_names stop round]:
  assumes "P t" and "select_current_status oid t = Some current"
    and round: "\<And>t row current. P t \<Longrightarrow> select_next_pending c oid t = Some row \<Longrightarrow>
      row \<in> set (pending_events t) \<Longrightarrow> pe_order_id row = oid \<Longrightarrow>
      select_current_status oid t = Some current \<Longrightarrow>
      Classification (EvaluateTransition current (pe_status row)) \<noteq> ClassificationOutOfOrder \<Longrightarrow>
      P (replay_round c current (pending_event row) t)"
  shows "P (fst (replay_tables c oid current n t))"
  using assms(1,2)
proof (induction "length (pending_events t)" arbitrary: t current n rule: less_induct)
  case less
  note unfold = replay_tables.simps [of c oid current n t]
  show ?case
  proof (cases "select_next_pending c oid t")
    case None
    with less.prems unfold show ?thesis by simp
  next
    case (Some row)
    let ?cl = "Classification (EvaluateTransition current (pe_status row))"
    let ?t = "replay_round c current (pending_event row) t"
    from Some have row: "row \<in> set (pending_events t)" "pe_order_id row = oid"
      by (auto dest: select_next_pending_SomeD)
    show ?thesis
    proof (cases "?cl = ClassificationOutOfOrder")
      case True
      with Some less.prems unfold show ?thesis by simp
    next
      case False
      have "P ?t" by (rule round [OF less.prems(1) Some row less.prems(2) False])
      moreover have "select_current_status oid ?t =
          Some (if ?cl = ClassificationApplied then pe_status row else current)"
        using status_replay_round [of row t current oid c] row less.prems(2) by simp
      ultimately have "P (fst (replay_tables c oid
          (if ?cl = ClassificationApplied then pe_status row else current) n' ?t))" for n'
        using less.hyps replay_round_decreases [OF Some] by simp
      with False Some unfold show ?thesis by (simp add: Let_def split: if_splits)
    qed
  qed
qed

lemma consistent_replay_tables:
  assumes "consistent t" and "select_current_status oid t = Some current"
  shows "consistent (fst (replay_tables c oid current n t))"
  using assms by (rule replay_tables_rounds) (blast intro: consistent_replay_round)

section \<open>Transactions keep the invariant\<close>

lemma fresh_outcome: "processed_events t eid = None \<longleftrightarrow> outcome_of t eid = None"
  by (simp add: outcome_of_def)

text \<open>The four destinations of a fresh event, as one case analysis.\<close>

lemma process_tables_cases:
  fixes c ev payload t
  defines "from \<equiv> select_current_status (OrderID ev) t"
  defines "transition \<equiv> EvaluateTransition (current_of from) (Status ev)"
  defines "result \<equiv> base_result ev (Classification transition) (Reason transition)"
  obtains (duplicate_event) "processed_events t (EventID ev) \<noteq> None"
      and "process_tables c ev payload t = (t, (base_result ev ClassificationDuplicateEvent
             ''event ID has already been processed'')\<lparr>res_Duplicate := True\<rparr>)"
  | (applied) "processed_events t (EventID ev) = None"
      and "Classification transition = ClassificationApplied"
      and "process_tables c ev payload t =
        (case replay_tables c (OrderID ev) (Status ev) 0
            (accept c ev from (record_as c ev ClassificationApplied t)) of
           (t', k) \<Rightarrow> (t', result\<lparr>res_Applied := True, res_ReplayedPending := k\<rparr>))"
  | (duplicate_status) "processed_events t (EventID ev) = None"
      and "Classification transition = ClassificationDuplicateStatus"
      and "process_tables c ev payload t =
        (record_as c ev ClassificationDuplicateStatus t, result\<lparr>res_Duplicate := True\<rparr>)"
  | (out_of_order) "processed_events t (EventID ev) = None"
      and "Classification transition = ClassificationOutOfOrder"
      and "process_tables c ev payload t =
        (defer_event c ev (Reason transition) payload (record_as c ev ClassificationOutOfOrder t),
         result\<lparr>res_Pending := True\<rparr>)"
  | (invalid) "processed_events t (EventID ev) = None"
      and "Classification transition = ClassificationInvalidTransition"
      and "process_tables c ev payload t =
        (bury c ev (Reason transition) payload (record_as c ev ClassificationInvalidTransition t),
         result\<lparr>res_DeadLetter := True\<rparr>)"
proof (cases "processed_events t (EventID ev) = None")
  case False
  then show thesis by (intro duplicate_event) (simp_all add: process_tables_def)
next
  case True
  then have run: "process_tables c ev payload t =
      route_tables c ev payload from transition result (register c ev t)"
    by (simp add: process_tables_def Let_def from_def transition_def result_def)
  from classification_total [of "current_of from" "Status ev"]
  consider "Classification transition = ClassificationApplied"
    | "Classification transition = ClassificationDuplicateStatus"
    | "Classification transition = ClassificationOutOfOrder"
    | "Classification transition = ClassificationInvalidTransition"
    by (auto simp: transition_def)
  then show thesis
    using True run that(2-5)
    by cases (simp_all add: route_tables_def Let_def settle_register)
qed

lemma consistent_process_tables:
  assumes "consistent t" and "isKnown (Status ev)"
  shows "consistent (fst (process_tables c ev payload t))"
proof -
  let ?from = "select_current_status (OrderID ev) t"
  have t: "materialized oid t" "accounted t" "matching t" for oid
    using assms(1) by (auto simp: consistent_def)
  show ?thesis
  proof (cases rule: process_tables_cases [of t ev c payload])
    case duplicate_event
    with assms(1) show ?thesis by simp
  next
    case applied
    then have fresh: "outcome_of t (EventID ev) = None" by (simp add: fresh_outcome)
    let ?t = "accept c ev ?from (record_as c ev ClassificationApplied t)"
    have "materialized oid ?t" for oid
      using applied(2) t(1) by (intro materialized_accept) simp_all
    then have "consistent ?t"
      using accounted_new [OF t(2) fresh] matching_new [OF t(3) fresh assms(2)]
      by (simp add: consistent_def)
    then have "consistent (fst (replay_tables c (OrderID ev) (Status ev) 0 ?t))"
      by (rule consistent_replay_tables) simp
    with applied(3) show ?thesis by (simp add: case_prod_beta)
  next
    case duplicate_status
    with t accounted_new [OF t(2)] matching_new [OF t(3) _ assms(2)] show ?thesis
      by (simp add: consistent_def fresh_outcome)
  next
    case out_of_order
    with t accounted_new [OF t(2)] matching_new [OF t(3) _ assms(2)] show ?thesis
      by (simp add: consistent_def fresh_outcome)
  next
    case invalid
    with t accounted_new [OF t(2)] matching_new [OF t(3) _ assms(2)] show ?thesis
      by (simp add: consistent_def fresh_outcome)
  qed
qed

lemma validateEvent_known: "validateEvent ev = Inr payload \<Longrightarrow> isKnown (Status ev)"
  by (auto simp: validateEvent_def isPersistableStatus_def isKnown_def Let_def
      split: if_splits sum.splits)

lemma chained_known:
  "chained prev hs \<Longrightarrow> h \<in> set hs \<Longrightarrow> isKnown (h_to_status h)"
proof (induction hs arbitrary: prev)
  case Nil
  then show ?case by simp
next
  case (Cons x xs)
  moreover have "isKnown (h_to_status x)"
  proof -
    from Cons.prems(1) have
      "Classification (EvaluateTransition (current_of prev) (h_to_status x)) = ClassificationApplied"
      by simp
    then show ?thesis
      by (metis classify_unknown classification_distinct(5))
  qed
  ultimately show ?case by auto
qed

lemma consistent_status_known:
  assumes "consistent t" and "select_current_status oid t = Some st"
  shows "isKnown st"
proof -
  have m: "materialized oid t" using assms(1) by (simp add: consistent_def)
  with assms(2) have "history_of oid t \<noteq> []" and "st = h_to_status (last (history_of oid t))"
    using materialized_status [OF m] by (auto split: if_splits)
  with m show ?thesis by (auto simp: materialized_def intro: chained_known)
qed

lemma consistent_pending:
  assumes "consistent t" and "row \<in> set (pending_events t)"
  shows "isKnown (pe_status row)" and "outcome_of t (pe_event_id row) = Some ClassificationOutOfOrder"
    and "pe_event_id row \<notin> h_event_id ` set (order_status_history t)"
    and "pe_event_id row \<notin> dl_event_id ` set (dead_letter_events t)"
proof -
  from assms have acc: "accounted t" and "matching t" by (auto simp: consistent_def)
  then show "isKnown (pe_status row)" using assms(2) by (auto simp: matching_def)
  show out: "outcome_of t (pe_event_id row) = Some ClassificationOutOfOrder"
    using accounted_ids(2) [OF acc] assms(2) by blast
  with accounted_ids(1,3) [OF acc, of "pe_event_id row"]
  show "pe_event_id row \<notin> h_event_id ` set (order_status_history t)"
    and "pe_event_id row \<notin> dl_event_id ` set (dead_letter_events t)"
    by simp_all
qed

end
