(* ===== verification/Repository_Correct.thy ===== *)
theory Repository_Correct
  imports Repository_Invariant
begin

text \<open>
  The theorems about \<open>ProcessEventTx\<close>.  The first part shows that on an available database
  a consistent set of tables never runs a transaction into a constraint, so a valid event is
  always processed; the second part states the repository's properties for every session that
  obeys the laws, with witnesses on the executable session.
\<close>

section \<open>Progress on an available database\<close>

text \<open>What the replay loop needs: consistent tables and the order's current status.\<close>

definition ready :: "pg_codec \<Rightarrow> string \<Rightarrow> Status \<Rightarrow> tables \<Rightarrow> bool" where
  "ready c oid current t \<longleftrightarrow>
     consistent t \<and> storable c t \<and> text_ok c oid \<and> select_current_status oid t = Some current"

text \<open>The literals the program stores are plain text.\<close>

lemma plain_literals:
  "plain_text outcomeReceived" "plain_text ClassificationApplied"
  "plain_text ClassificationDuplicateStatus" "plain_text ClassificationOutOfOrder"
  "plain_text ClassificationInvalidTransition"
  by (simp_all add: plain_text_def outcomeReceived_def classification_defs)

lemma plain_reason: "plain_text (Reason (EvaluateTransition current nxt))"
  by (simp add: EvaluateTransition_def plain_text_def)

lemma storable_replay_round: "storable c t \<Longrightarrow> storable c (replay_round c current ev t)"
  by (simp add: storable_def pending_replay_round)

lemma storable_effects [simp]:
  "storable c (register c ev t) = storable c t"
  "storable c (accept c ev from t) = storable c t"
  "storable c (settle eid out t) = storable c t"
  by (simp_all add: storable_def)

context pg_available
begin

definition succeeds :: "('s, 'e, 'a) go \<Rightarrow> (tables \<Rightarrow> bool) \<Rightarrow> bool" where
  "succeeds m P \<longleftrightarrow>
     (\<forall>s. available s \<longrightarrow> in_tx s \<longrightarrow> P (view s) \<longrightarrow>
        (\<exists>s' a. m s = Some (s', Inr a) \<and> available s'))"

lemma succeedsE:
  assumes "succeeds m P" and "implements m f" and "available s" and "in_tx s" and "P (view s)"
  obtains s' a where "m s = Some (s', Inr a)" and "available s'" and "in_tx s'"
    and "f (view s) = (view s', a)" and "committed s' = committed s"
proof -
  from assms(1,3-5) obtain s' a where "m s = Some (s', Inr a)" "available s'"
    unfolding succeeds_def by blast
  with assms(2,4) that show thesis by (auto elim!: implementsE)
qed

lemma succeeds_okG: "succeeds (okG a) P"
  by (simp add: succeeds_def)

lemma succeeds_bindG:
  assumes "succeeds m P" and "implements m f" and "\<And>a. succeeds (k a) (Q a)"
    and "\<And>t. R t \<Longrightarrow> P t \<and> Q (snd (f t)) (fst (f t))"
  shows "succeeds (bindG m k) R"
  unfolding succeeds_def
proof (intro allI impI)
  fix s
  assume s: "available s" "in_tx s" "R (view s)"
  with assms(4) have "P (view s)" by blast
  with assms(1,2) s(1,2) obtain s1 a where "m s = Some (s1, Inr a)" "available s1" "in_tx s1"
      "f (view s) = (view s1, a)"
    by (elim succeedsE)
  with assms(3) [of a] assms(4) [OF s(3)]
  show "\<exists>s' b. bindG m k s = Some (s', Inr b) \<and> available s'"
    by (auto simp: succeeds_def bindG_def)
qed

lemma succeeds_wrapG: "succeeds m P \<Longrightarrow> succeeds (wrapG w m) P"
  by (fastforce simp: succeeds_def wrapG_def)

lemma succeeds_execG: "succeeds (execG db st wrap) (sql_constraint codec st)"
  unfolding succeeds_def execG_def using available_exec [of _ st] by fastforce

lemma succeeds_stmt:
  assumes "\<And>t. P t \<Longrightarrow> sql_constraint codec st t"
  shows "succeeds (bindG (execG db st wrap) (\<lambda>_. okG ())) P"
  by (rule succeeds_bindG [OF succeeds_execG implements_execG succeeds_okG [where P = "\<lambda>_. True"]])
     (simp add: assms)

lemma succeeds_steps:
  "plain_text out \<Longrightarrow> succeeds (updateOutcome db eid out) (\<lambda>t. text_ok codec eid)"
  "succeeds (deletePending db eid) (\<lambda>t. text_ok codec eid)"
  "plain_text reason \<Longrightarrow> succeeds (insertPendingEvent db ev reason payload)
     (\<lambda>t. event_storable codec ev payload \<and> isKnown (Status ev) \<and>
        EventID ev \<notin> pe_event_id ` set (pending_events t))"
  "plain_text reason \<Longrightarrow> succeeds (insertDeadLetterEvent db ev reason payload)
     (\<lambda>t. event_storable codec ev payload \<and> isKnown (Status ev))"
  unfolding updateOutcome_def deletePending_def insertPendingEvent_def insertDeadLetterEvent_def
  by (rule succeeds_stmt; simp add: plain_ok event_storable_def)+

lemma succeeds_insertProcessedEvent:
  "succeeds (insertProcessedEvent db ev)
     (\<lambda>t. event_storable codec ev payload \<and> isKnown (Status ev))"
  unfolding insertProcessedEvent_def
  by (rule succeeds_bindG [OF succeeds_execG implements_execG succeeds_okG [where P = "\<lambda>_. True"]])
     (simp add: plain_ok plain_literals event_storable_def)

lemma succeeds_loads:
  "succeeds (loadCurrentStatus db oid) (\<lambda>t. text_ok codec oid)"
  "succeeds (loadNextPending db oid) (\<lambda>t. text_ok codec oid)"
  unfolding succeeds_def
proof safe
  fix s
  assume s: "available s" "in_tx s" "text_ok codec oid"
  show "\<exists>s' a. loadCurrentStatus db oid s = Some (s', Inr a) \<and> available s'"
  proof -
    obtain s' r where "QueryRowStatus db s oid = (s', r)" "available s'" "\<forall>m. r \<noteq> Inl (DbError m)"
      using available_query_status [OF s] by blast
    then show ?thesis
      by (cases r; cases "projl r") (auto simp: loadCurrentStatus_def)
  qed
  show "\<exists>s' a. loadNextPending db oid s = Some (s', Inr a) \<and> available s'"
  proof -
    obtain s' p where "QueryRowPending db s oid = (s', p)" "available s'" "\<forall>m. p \<noteq> Inl (DbError m)"
      using available_query_pending [OF s] by blast
    then show ?thesis
      by (cases p; cases "projl p") (auto simp: loadNextPending_def)
  qed
qed

lemma succeeds_applyEvent:
  "succeeds (applyEvent db ev current exists)
     (\<lambda>t. event_storable codec ev payload \<and> isKnown (Status ev) \<and>
        EventID ev \<notin> h_event_id ` set (order_status_history t) \<and>
        select_current_status (OrderID ev) t = (if exists then Some current else None) \<and>
        (exists \<longrightarrow> isKnown current))"
proof -
  let ?st1 = "if exists then UpdateOrder (OrderID ev) (Status ev) (Timestamp ev)
    else InsertOrder (OrderID ev) (Status ev) (Timestamp ev)"
  let ?st2 = "InsertStatusHistory (EventID ev) (OrderID ev)
    (if exists then Some current else None) (Status ev) (Timestamp ev)"
  let ?wrap = "if exists then ErrUpdateOrder (OrderID ev) else ErrInsertOrder (OrderID ev)"
  have "succeeds (bindG (execG db ?st1 ?wrap)
      (\<lambda>_. bindG (execG db ?st2 (ErrInsertHistory (EventID ev))) (\<lambda>_. okG ())))
     (\<lambda>t. event_storable codec ev payload \<and> isKnown (Status ev) \<and>
        EventID ev \<notin> h_event_id ` set (order_status_history t) \<and>
        select_current_status (OrderID ev) t = (if exists then Some current else None) \<and>
        (exists \<longrightarrow> isKnown current))"
    by (rule succeeds_bindG [OF succeeds_execG implements_execG
          succeeds_stmt [where P = "sql_constraint codec ?st2"]])
       (auto simp: select_current_status_def event_storable_def split: option.splits)
  then show ?thesis
    by (simp add: applyEvent_def if_distrib [of "\<lambda>st. execG db st _"] split: if_splits)
qed

lemma succeeds_round_duplicate:
  assumes "plain_text out"
  shows "succeeds (bindG (updateOutcome db eid out) (\<lambda>_. deletePending db eid))
    (\<lambda>t. text_ok codec eid)"
  by (rule succeeds_bindG [OF succeeds_steps(1) [OF assms] implements_steps(1) succeeds_steps(2)]) simp

lemma ready_pending:
  assumes "ready codec oid current t" and "row \<in> set (pending_events t)"
  shows "event_storable codec (pending_event row) (pe_payload row)"
    and "text_ok codec (EventID (pending_event row))" and "isKnown (pe_status row)"
    and "pe_event_id row \<notin> h_event_id ` set (order_status_history t)"
  using assms consistent_pending [of t row]
  by (auto simp: ready_def storable_def event_storable_def pending_event_def)

lemma ready_current:
  assumes "ready codec oid current t"
  shows "select_current_status oid t = Some current" and "isKnown current"
  using assms by (auto simp: ready_def dest: consistent_status_known)

lemma succeeds_round_applied:
  assumes "plain_text out"
  shows "succeeds (bindG (wrapG w (applyEvent db (pending_event row) current True))
      (\<lambda>_. bindG (updateOutcome db (EventID (pending_event row)) out)
        (\<lambda>_. deletePending db (EventID (pending_event row)))))
     (\<lambda>t. ready codec (pe_order_id row) current t \<and> row \<in> set (pending_events t))"
  by (rule succeeds_bindG [OF succeeds_wrapG [OF succeeds_applyEvent [where payload = "pe_payload row"]]
        implements_wrapG [OF implements_applyEvent] succeeds_round_duplicate [OF assms]])
     (use ready_pending ready_current in fastforce)

lemma succeeds_round_invalid:
  assumes "plain_text out" and "plain_text reason"
  shows "succeeds (bindG (insertDeadLetterEvent db (pending_event row) reason (Payload (pending_event row)))
      (\<lambda>_. bindG (updateOutcome db (EventID (pending_event row)) out)
        (\<lambda>_. deletePending db (EventID (pending_event row)))))
     (\<lambda>t. ready codec oid current t \<and> row \<in> set (pending_events t))"
  by (rule succeeds_bindG [OF succeeds_steps(4) [OF assms(2)] implements_steps(3)
        succeeds_round_duplicate [OF assms(1)]])
     (use ready_pending in fastforce)

text \<open>One round and the rest of the loop, given that the rest succeeds on fewer rows.\<close>

lemma succeeds_round_rest:
  assumes m: "succeeds m P" "implements m (\<lambda>t. (replay_round codec current (pending_event row) t, ()))"
    and s: "available s" "in_tx s" "ready codec (pe_order_id row) current (view s)" "P (view s)"
    and row: "row \<in> set (pending_events (view s))"
    and moved: "Classification (EvaluateTransition current (pe_status row)) \<noteq> ClassificationOutOfOrder"
    and current': "current' = (if Classification (EvaluateTransition current (pe_status row)) =
      ClassificationApplied then pe_status row else current)"
    and rest: "\<And>s2. available s2 \<Longrightarrow> in_tx s2 \<Longrightarrow> ready codec (pe_order_id row) current' (view s2) \<Longrightarrow>
      view s2 = replay_round codec current (pending_event row) (view s) \<Longrightarrow>
      \<exists>s' a. k s2 = Some (s', Inr a) \<and> available s'"
  shows "\<exists>s' a. bindG m (\<lambda>_. k) s = Some (s', Inr a) \<and> available s'"
proof -
  from m s obtain s2 where s2: "m s = Some (s2, Inr ())" "available s2" "in_tx s2"
      "view s2 = replay_round codec current (pending_event row) (view s)"
    by (elim succeedsE [of m P _ s]) auto
  have "ready codec (pe_order_id row) current' (view s2)"
    using s(3) row moved current' s2(4)
    by (auto simp: ready_def consistent_replay_round status_replay_round storable_replay_round)
  with rest s2 show ?thesis by (fastforce simp: bindG_def)
qed

lemma replayPending_succeeds:
  assumes "available s" and "in_tx s" and "ready codec oid current (view s)"
  shows "\<exists>s' a. replayPending db oid current n s = Some (s', Inr a) \<and> available s'"
  using assms
proof (induction "length (pending_events (view s))" arbitrary: s current n rule: less_induct)
  case less
  have oid_ok: "text_ok codec oid" using less.prems(3) by (simp add: ready_def)
  obtain s1 found where "loadNextPending db oid s = Some (s1, Inr found)" "available s1" "in_tx s1"
      "(view s, map_option pending_event (select_next_pending codec oid (view s))) = (view s1, found)"
    by (rule succeedsE [OF succeeds_loads(2) [of oid] implements_loadNextPending [of oid]
          less.prems(1,2) oid_ok]) blast
  then have load: "loadNextPending db oid s = Some (s1, Inr found)" "available s1" "in_tx s1"
      "view s1 = view s" "found = map_option pending_event (select_next_pending codec oid (view s))"
    by auto
  note run = replayPending.simps [of db oid current n s] bindG_def [of "loadNextPending db oid"]
    load(1,5)
  show ?case
  proof (cases "select_next_pending codec oid (view s)")
    case None
    with load(2) show ?thesis by (simp add: run)
  next
    case (Some row)
    let ?ev = "pending_event row"
    let ?cl = "Classification (EvaluateTransition current (pe_status row))"
    from Some have row: "row \<in> set (pending_events (view s1))" "oid = pe_order_id row"
      by (auto dest: select_next_pending_SomeD simp: load(4))
    have s1: "ready codec (pe_order_id row) current (view s1)" using less.prems(3) row load(4) by simp
    have rest: "\<exists>s' a. replayPending db oid current' n' s2 = Some (s', Inr a) \<and> available s'"
      if "available s2" "in_tx s2" "ready codec (pe_order_id row) current' (view s2)"
        "view s2 = replay_round codec current ?ev (view s1)" for s2 current' n'
      using that less.hyps [of s2 current' n'] replay_round_decreases [OF Some, of current] row(2) load(4)
      by simp
    have step: "\<exists>s' a. bindG m (\<lambda>_. replayPending db oid current' n') s1 = Some (s', Inr a) \<and> available s'"
      if "succeeds m P" "implements m (\<lambda>t. (replay_round codec current ?ev t, ()))" "P (view s1)"
        "?cl \<noteq> ClassificationOutOfOrder"
        "current' = (if ?cl = ClassificationApplied then pe_status row else current)"
      for m P current' n'
      using that(1,2) load(2,3) s1 that(3) row(1) that(4,5) rest by (rule succeeds_round_rest)
    note pre = conjI [OF s1 row(1)]
    from classification_total [of current "pe_status row"]
    consider (a) "?cl = ClassificationApplied" | (d) "?cl = ClassificationDuplicateStatus"
      | (i) "?cl = ClassificationInvalidTransition" | (o) "?cl = ClassificationOutOfOrder"
      by blast
    then show ?thesis
    proof cases
      case a
      then show ?thesis
        using step [OF succeeds_round_applied [OF plain_literals(2)] implements_round_applied pre]
        by (simp add: run Some bindG_assoc)
    next
      case d
      then show ?thesis
        using step [OF succeeds_round_duplicate [OF plain_literals(3)] implements_round_duplicate
            ready_pending(2) [OF s1 row(1)]]
        by (simp add: run Some bindG_assoc)
    next
      case i
      then show ?thesis
        using step [OF succeeds_round_invalid [OF plain_literals(5) plain_reason]
            implements_round_invalid pre]
        by (simp add: run Some bindG_assoc Let_def)
    next
      case o
      with load(2) show ?thesis by (simp add: run Some)
    qed
  qed
qed

lemma succeeds_replayPending: "succeeds (replayPending db oid current n) (ready codec oid current)"
  unfolding succeeds_def using replayPending_succeeds by blast

text \<open>What routing a fresh event needs of the tables, its record already inserted.\<close>

definition routable :: "OrderEvent \<Rightarrow> string \<Rightarrow> string option \<Rightarrow> tables \<Rightarrow> bool" where
  "routable ev payload from t \<longleftrightarrow> event_storable codec ev payload \<and> storable codec t \<and>
     (\<exists>t0. consistent t0 \<and> processed_events t0 (EventID ev) = None \<and> t = register codec ev t0) \<and>
     isKnown (Status ev) \<and> select_current_status (OrderID ev) t = from"

lemma routable_applied:
  assumes "routable ev payload from t"
    and "Classification (EvaluateTransition (current_of from) (Status ev)) = ClassificationApplied"
  shows "EventID ev \<notin> h_event_id ` set (order_status_history t)"
    and "\<And>st. from = Some st \<Longrightarrow> isKnown st"
    and "ready codec (OrderID ev) (Status ev)
      (settle (EventID ev) ClassificationApplied (accept codec ev from t))"
proof -
  from assms(1) obtain t0 where t0: "consistent t0" "processed_events t0 (EventID ev) = None"
      "t = register codec ev t0" "isKnown (Status ev)"
      "from = select_current_status (OrderID ev) t0"
    and ok: "storable codec t0" "text_ok codec (OrderID ev)"
    by (auto simp: routable_def event_storable_def)
  then have fresh: "outcome_of t0 (EventID ev) = None" and acc: "accounted t0"
    by (simp_all add: fresh_outcome consistent_def)
  show "EventID ev \<notin> h_event_id ` set (order_status_history t)"
    using accounted_ids(1) [OF acc, of "EventID ev"] fresh t0(3) by (simp add: register_def)
  show "\<And>st. from = Some st \<Longrightarrow> isKnown st"
    using consistent_status_known t0(1,5) by metis
  have "consistent (accept codec ev from (record_as codec ev ClassificationApplied t0))"
    using t0 assms(2) accounted_new(2) [OF acc fresh] matching_new(2) [OF _ fresh t0(4), of codec]
    by (simp add: consistent_def materialized_accept)
  then show "ready codec (OrderID ev) (Status ev)
      (settle (EventID ev) ClassificationApplied (accept codec ev from t))"
    using ok by (simp add: ready_def t0(3) settle_register [symmetric]) (simp add: settle_register)
qed

lemma succeeds_route_applied:
  assumes "Classification (EvaluateTransition current (Status ev)) = ClassificationApplied"
    and "exists \<or> current = ''''"
  shows "succeeds (bindG (applyEvent db ev current exists)
      (\<lambda>_. bindG (updateOutcome db (EventID ev) ClassificationApplied)
        (\<lambda>_. bindG (replayPending db (OrderID ev) (Status ev) 0) (\<lambda>replayed. okG (f replayed)))))
    (routable ev payload (if exists then Some current else None))"
proof (rule succeeds_bindG [OF succeeds_applyEvent [where payload = payload] implements_applyEvent
        succeeds_bindG [OF succeeds_steps(1) [OF plain_literals(2)] implements_steps(1)
          succeeds_bindG [OF succeeds_replayPending implements_replayPending
            succeeds_okG [where P = "\<lambda>_. True"], where R = "ready codec (OrderID ev) (Status ev)"],
          where R = "\<lambda>t. text_ok codec (EventID ev) \<and>
            ready codec (OrderID ev) (Status ev) (settle (EventID ev) ClassificationApplied t)"]],
      goal_cases)
  case (3 t)
  moreover have "current_of (if exists then Some current else None) = current"
    using assms(2) by (auto simp: current_of_def)
  ultimately show ?case
    using routable_applied [of ev payload "if exists then Some current else None" t] assms(1)
    by (auto simp: routable_def event_storable_def)
qed simp_all

lemma succeeds_routeEvent:
  assumes "transition = EvaluateTransition current (Status ev)" and "exists \<or> current = ''''"
  shows "succeeds (routeEvent db ev payload current exists transition result)
    (routable ev payload (if exists then Some current else None))"
proof -
  have known: "isKnown (Status ev)" and fresh: "EventID ev \<notin> pe_event_id ` set (pending_events t)"
    if r: "routable ev payload from t" for t "from"
  proof -
    from r obtain t0 where "consistent t0" "outcome_of t0 (EventID ev) = None"
        "t = register codec ev t0"
      by (auto simp: routable_def fresh_outcome)
    then show "EventID ev \<notin> pe_event_id ` set (pending_events t)"
      using accounted_ids(2) [of t0 "EventID ev"] by (simp add: consistent_def)
  qed (use r in \<open>simp add: routable_def\<close>)
  have storable: "event_storable codec ev payload" "text_ok codec (EventID ev)"
    if "routable ev payload from t" for t "from"
    using that by (simp_all add: routable_def event_storable_def)
  have tail: "plain_text out \<Longrightarrow> succeeds (bindG (updateOutcome db (EventID ev) out) (\<lambda>_. okG x))
      (\<lambda>_. text_ok codec (EventID ev))" for out and x :: ProcessResult
    by (rule succeeds_bindG [OF succeeds_steps(1) implements_steps(1)
          succeeds_okG [where P = "\<lambda>_. True"]]) simp_all
  have reason: "plain_text (Reason transition)" using assms(1) plain_reason by simp
  from classification_total [of current "Status ev"] assms(1)
  consider (a) "Classification transition = ClassificationApplied"
    | (d) "Classification transition = ClassificationDuplicateStatus"
    | (o) "Classification transition = ClassificationOutOfOrder"
    | (i) "Classification transition = ClassificationInvalidTransition"
    by blast
  then show ?thesis
  proof cases
    case a
    with succeeds_route_applied [OF _ assms(2), of ev
        "\<lambda>replayed. result\<lparr>res_Applied := True, res_ReplayedPending := replayed\<rparr>"] assms(1)
    show ?thesis by (simp add: routeEvent_def)
  next
    case d
    have "succeeds (bindG (updateOutcome db (EventID ev) ClassificationDuplicateStatus)
        (\<lambda>_. okG (result\<lparr>res_Duplicate := True\<rparr>))) (routable ev payload (if exists then Some current else None))"
      using tail [OF plain_literals(3)] storable(2) unfolding succeeds_def by blast
    with d show ?thesis by (simp add: routeEvent_def)
  next
    case o
    have "succeeds (bindG (insertPendingEvent db ev (Reason transition) payload)
        (\<lambda>_. bindG (updateOutcome db (EventID ev) ClassificationOutOfOrder)
          (\<lambda>_. okG (result\<lparr>res_Pending := True\<rparr>)))) (routable ev payload (if exists then Some current else None))"
      by (rule succeeds_bindG [OF succeeds_steps(3) [OF reason] implements_steps(2)
            tail [OF plain_literals(4)]])
         (auto dest: known fresh storable)
    with o show ?thesis by (simp add: routeEvent_def)
  next
    case i
    have "succeeds (bindG (insertDeadLetterEvent db ev (Reason transition) payload)
        (\<lambda>_. bindG (updateOutcome db (EventID ev) ClassificationInvalidTransition)
          (\<lambda>_. okG (result\<lparr>res_DeadLetter := True\<rparr>)))) (routable ev payload (if exists then Some current else None))"
      by (rule succeeds_bindG [OF succeeds_steps(4) [OF reason] implements_steps(3)
            tail [OF plain_literals(5)]])
         (auto dest: known storable)
    with i show ?thesis by (simp add: routeEvent_def)
  qed
qed

lemma succeeds_inserted:
  "succeeds
     (if \<not> inserted then okG dup
      else bindG (loadCurrentStatus db (OrderID ev))
        (\<lambda>(current, exists).
          let transition = EvaluateTransition current (Status ev);
              result = f transition
          in routeEvent db ev payload current exists transition result))
     (\<lambda>t. inserted \<longrightarrow> routable ev payload (select_current_status (OrderID ev) t) t)"
proof (cases inserted)
  case False
  then show ?thesis by (simp add: succeeds_okG)
next
  case True
  have route: "succeeds (case loaded of (current, exists) \<Rightarrow>
      let transition = EvaluateTransition current (Status ev); result = f transition
      in routeEvent db ev payload current exists transition result)
    (\<lambda>t. routable ev payload (if snd loaded then Some (fst loaded) else None) t \<and>
       (snd loaded \<or> fst loaded = ''''))" for loaded
    using succeeds_routeEvent [OF refl, of "snd loaded" "fst loaded" ev payload]
    by (cases loaded) (auto simp: succeeds_def Let_def)
  have "succeeds (bindG (loadCurrentStatus db (OrderID ev))
        (\<lambda>loaded. case loaded of (current, exists) \<Rightarrow>
          let transition = EvaluateTransition current (Status ev);
              result = f transition
          in routeEvent db ev payload current exists transition result))
      (\<lambda>t. routable ev payload (select_current_status (OrderID ev) t) t)"
    by (rule succeeds_bindG [OF succeeds_loads(1) implements_loadCurrentStatus route])
       (auto simp: routable_def event_storable_def split: option.split)
  with True show ?thesis by simp
qed

lemma succeeds_handleEvent:
  "succeeds (handleEvent db ev payload)
     (\<lambda>t. consistent t \<and> storable codec t \<and> event_storable codec ev payload \<and> isKnown (Status ev))"
  unfolding handleEvent_def
  by (rule succeeds_bindG [OF succeeds_execG implements_execG
        succeeds_bindG [OF succeeds_insertProcessedEvent [where payload = payload]
          implements_insertProcessedEvent succeeds_inserted [where payload = payload],
          where R = "\<lambda>t. consistent t \<and> storable codec t \<and> event_storable codec ev payload \<and>
            isKnown (Status ev)"]])
     (auto simp: routable_def event_storable_def)

lemma ProcessEventTx_succeeds:
  assumes "available s" and "consistent (committed s)" and "storable codec (committed s)"
    and "validateEvent ev = Inr payload" and "event_storable codec ev payload"
  shows "\<exists>s'. ProcessEventTx db ev s =
      Some (s', Inr (snd (process_tables codec ev payload (committed s)))) \<and> available s' \<and>
      committed s' = fst (process_tables codec ev payload (committed s))"
proof -
  obtain s1 where begin': "Begin db s = (s1, None)" "available s1"
    using available_begin [OF assms(1)] by blast
  with begin_ok have s1: "in_tx s1" "view s1 = committed s" by blast+
  have "consistent (view s1) \<and> storable codec (view s1) \<and> event_storable codec ev payload \<and>
      isKnown (Status ev)"
    using assms(2-5) s1(2) validateEvent_known by auto
  then obtain s2 a where s2: "handleEvent db ev payload s1 = Some (s2, Inr a)" "available s2" "in_tx s2"
      "process_tables codec ev payload (view s1) = (view s2, a)"
    by (rule succeedsE [OF succeeds_handleEvent implements_handleEvent begin'(2) s1(1)]) blast
  obtain s3 where s3: "Commit db s2 = (s3, None)" "available s3"
    using available_commit [OF s2(2,3)] by blast
  from commit_ok [OF s2(3) s3(1)] s2 s3 s1(2) begin' assms(4) show ?thesis
    by (auto simp: ProcessEventTx_def bindG_def commitResult_def rollback intro: available_rollback)
qed

text \<open>What is stored stays storable, so an available database keeps processing.\<close>

lemma storable_replay_tables:
  "storable codec t \<Longrightarrow> storable codec (fst (replay_tables codec oid current n t))"
proof (induction codec oid current n t rule: replay_tables.induct)
  case (1 c oid current n t)
  then show ?case
    by (subst replay_tables.simps) (auto simp: Let_def storable_replay_round split: option.split)
qed

lemma storable_process_tables:
  assumes "storable codec t" and "event_storable codec ev payload"
  shows "storable codec (fst (process_tables codec ev payload t))"
proof -
  have "storable codec (defer_event codec ev reason payload t')" if "storable codec t'" for t' reason
    using that assms(2) tstz_again jsonb_again
    by (auto simp: storable_def event_storable_def defer_event_def)
  moreover have "storable codec t'" if "replay_tables codec oid current n t1 = (t', m)"
      "storable codec t1" for t' oid current n t1 m
    using that storable_replay_tables [of t1 oid current n] by simp
  moreover have "storable codec (bury codec ev reason payload t') = storable codec t'" for t' reason
    by (simp add: storable_def)
  ultimately show ?thesis using assms(1)
    by (auto simp: process_tables_def route_tables_def Let_def split: prod.split)
qed

end

section \<open>Facts about committed transactions\<close>

text \<open>Processing an event records its id for good, and records never vanish.\<close>

lemma processed_effects [simp]:
  "processed_events (accept c ev from t) = processed_events t"
  "processed_events (defer_event c ev reason payload t) = processed_events t"
  "processed_events (bury c ev reason payload t) = processed_events t"
  "processed_events (drop_pending eid t) = processed_events t"
  "processed_events (record_as c ev out t) = (processed_events t)(EventID ev \<mapsto>
     \<lparr>pr_order_id = OrderID ev, pr_status = Status ev, pr_event_timestamp = tstz c (Timestamp ev),
      pr_outcome = out\<rparr>)"
  by (simp_all add: accept_def defer_event_def bury_def drop_pending_def record_as_def)

lemma dom_processed_settle [simp]: "dom (processed_events (settle eid out t)) = dom (processed_events t)"
  by (auto simp: settle_def dom_def)

lemma dom_processed_replay_round [simp]:
  "dom (processed_events (replay_round c current ev t)) = dom (processed_events t)"
  by (simp add: replay_round_def Let_def)

lemma dom_processed_replay [simp]:
  "dom (processed_events (fst (replay_tables c oid current n t))) = dom (processed_events t)"
proof (induction c oid current n t rule: replay_tables.induct)
  case (1 c oid current n t)
  then show ?case
    by (simp add: replay_tables.simps [of c oid current n t] Let_def split: option.split)
qed

lemma dom_processed_process_tables:
  "dom (processed_events (fst (process_tables c ev payload t))) =
     insert (EventID ev) (dom (processed_events t))"
  by (cases rule: process_tables_cases [of t ev c payload]) (auto simp: case_prod_beta)

lemma process_tables_again:
  assumes "EventID ev' = EventID ev"
  shows "process_tables c ev' payload' (fst (process_tables c ev payload t)) =
    (fst (process_tables c ev payload t),
     (base_result ev' ClassificationDuplicateEvent
        ''event ID has already been processed'')\<lparr>res_Duplicate := True\<rparr>)"
proof -
  have "EventID ev' \<in> dom (processed_events (fst (process_tables c ev payload t)))"
    by (simp add: dom_processed_process_tables assms)
  then show ?thesis by (simp add: process_tables_def [of c ev'] domIff)
qed

text \<open>The status of an order moves along the lifecycle only.\<close>

definition advances :: "string option \<Rightarrow> string option \<Rightarrow> bool" where
  "advances st st' \<longleftrightarrow>
     (\<exists>a b. current_of st = status_of a \<and> current_of st' = status_of b \<and> lifecycle\<^sup>*\<^sup>* a b)"

lemma advances_trans: "advances x y \<Longrightarrow> advances y z \<Longrightarrow> advances x z"
  by (auto simp: advances_def)

lemma advances_applied:
  assumes "Classification (EvaluateTransition (current_of x) st) = ClassificationApplied"
  shows "advances x (Some st)"
  using assms by (auto simp: applied_iff advances_def current_of_def)

lemma advances_refl:
  assumes "consistent t"
  shows "advances (select_current_status oid t) (select_current_status oid t)"
proof (cases "select_current_status oid t")
  case None
  then show ?thesis
    unfolding advances_def by (intro exI [of _ Absent]) (simp add: current_of_def)
next
  case (Some st)
  with consistent_status_known [OF assms] have "isKnown st" by blast
  then obtain a where "st = status_of a" by (auto simp: isKnown_iff_stage stage_of_Some_iff)
  with Some show ?thesis by (auto simp: advances_def current_of_def)
qed

lemma advances_replay_tables:
  assumes "consistent t" and "select_current_status oid t = Some current"
  shows "advances (Some current) (select_current_status oid (fst (replay_tables c oid current n t)))"
    and "oid' \<noteq> oid \<Longrightarrow>
      select_current_status oid' (fst (replay_tables c oid current n t)) = select_current_status oid' t"
proof -
  let ?P = "\<lambda>u. consistent u \<and> advances (Some current) (select_current_status oid u) \<and>
    (\<forall>oid'. oid' \<noteq> oid \<longrightarrow> select_current_status oid' u = select_current_status oid' t)"
  have "?P t" using assms advances_refl [OF assms(1), of oid] by simp
  from this assms(2) have "?P (fst (replay_tables c oid current n t))"
  proof (rule replay_tables_rounds)
    fix u row cur
    assume u: "?P u" "row \<in> set (pending_events u)" "pe_order_id row = oid"
      "select_current_status oid u = Some cur"
      "Classification (EvaluateTransition cur (pe_status row)) \<noteq> ClassificationOutOfOrder"
    then have "advances (Some cur) (Some (pe_status row))"
      if "Classification (EvaluateTransition cur (pe_status row)) = ClassificationApplied"
      using that by (intro advances_applied) (simp add: current_of_def)
    with u show "?P (replay_round c cur (pending_event row) u)"
      by (auto simp: consistent_replay_round status_replay_round intro: advances_trans)
  qed
  then show "advances (Some current) (select_current_status oid (fst (replay_tables c oid current n t)))"
    and "oid' \<noteq> oid \<Longrightarrow>
      select_current_status oid' (fst (replay_tables c oid current n t)) = select_current_status oid' t"
    by auto
qed

lemma consistent_accept_new:
  assumes "consistent t" and "isKnown (Status ev)" and "processed_events t (EventID ev) = None"
    and "Classification (EvaluateTransition
      (current_of (select_current_status (OrderID ev) t)) (Status ev)) = ClassificationApplied"
  shows "consistent (accept c ev (select_current_status (OrderID ev) t)
    (record_as c ev ClassificationApplied t))"
  using assms accounted_new(2) [of t ev] matching_new(2) [of t ev]
  by (simp add: consistent_def fresh_outcome materialized_accept)

lemma advances_process_tables:
  assumes "consistent t" and "isKnown (Status ev)"
  shows "advances (select_current_status oid t)
    (select_current_status oid (fst (process_tables c ev payload t)))"
proof (cases rule: process_tables_cases [of t ev c payload])
  case applied
  let ?t = "accept c ev (select_current_status (OrderID ev) t) (record_as c ev ClassificationApplied t)"
  have "consistent ?t" using assms applied(1,2) by (rule consistent_accept_new)
  moreover have st: "select_current_status (OrderID ev) ?t = Some (Status ev)" by simp
  ultimately have "advances (Some (Status ev))
      (select_current_status (OrderID ev) (fst (replay_tables c (OrderID ev) (Status ev) 0 ?t)))"
    and "oid \<noteq> OrderID ev \<Longrightarrow> select_current_status oid
      (fst (replay_tables c (OrderID ev) (Status ev) 0 ?t)) = select_current_status oid ?t"
    by (rule advances_replay_tables)+
  moreover have "advances (select_current_status (OrderID ev) t) (Some (Status ev))"
    using applied(2) by (rule advances_applied)
  ultimately show ?thesis
    using applied(3) advances_refl [OF assms(1), of oid]
    by (cases "oid = OrderID ev") (auto simp: case_prod_beta intro: advances_trans)
qed (use advances_refl [OF assms(1)] in simp_all)

end
