(* ===== verification/Repository_Properties.thy ===== *)
theory Repository_Properties
  imports Repository_Correct
begin

text \<open>
  The repository's properties, stated for every session that satisfies \<open>pg_session\<close> or
  \<open>pg_available\<close> of \<open>Postgres\<close>, each with a witness on the executable session
  \<open>pgsim\<close>.
\<close>

section \<open>Concrete inputs for the witnesses\<close>

definition demo_event :: "string \<Rightarrow> string \<Rightarrow> Status \<Rightarrow> gotime \<Rightarrow> OrderEvent" where
  "demo_event eid oid st ts =
     \<lparr>EventID = eid, OrderID = oid, Status = st, Timestamp = ts, Payload = ''''\<rparr>"

definition demo_created :: OrderEvent where
  "demo_created = demo_event ''e1'' ''o1'' StatusCreated 5000"

lemma demo_event_sel [simp]:
  "EventID (demo_event eid oid st ts) = eid" "OrderID (demo_event eid oid st ts) = oid"
  "Status (demo_event eid oid st ts) = st" "Timestamp (demo_event eid oid st ts) = ts"
  "Payload (demo_event eid oid st ts) = ''''"
  by (simp_all add: demo_event_def)

lemma validate_demo_event:
  "eid \<noteq> [] \<Longrightarrow> oid \<noteq> [] \<Longrightarrow> ts \<noteq> 0 \<Longrightarrow> isKnown st \<Longrightarrow>
   validateEvent (demo_event eid oid st ts) = Inr ''{}''"
  by (simp add: validateEvent_def IsZero_def isPersistableStatus_def isKnown_def)

lemma validate_demo_created: "validateEvent demo_created = Inr ''{}''"
  by (simp add: demo_created_def validate_demo_event)

lemmas demo_session = sim_session.pg_session_axioms [where c = sim_codec]
lemmas demo_available = sim_db.pg_available_axioms

text \<open>The states the demonstrations run in: no faults ahead, consistent and storable tables.\<close>

definition demo_ok :: "sim \<Rightarrow> bool" where
  "demo_ok s \<longleftrightarrow>
     sim_available s \<and> consistent (sim_committed s) \<and> storable sim_codec (sim_committed s)"

lemma demo_run:
  assumes "demo_ok s" and "validateEvent ev = Inr payload" and "event_storable sim_codec ev payload"
  obtains s' where "ProcessEventTx (pgsim sim_codec) ev s =
      Some (s', Inr (snd (process_tables sim_codec ev payload (sim_committed s))))"
    and "sim_committed s' = fst (process_tables sim_codec ev payload (sim_committed s))"
    and "demo_ok s'"
proof -
  obtain s' where "ProcessEventTx (pgsim sim_codec) ev s =
      Some (s', Inr (snd (process_tables sim_codec ev payload (sim_committed s))))"
      "sim_available s'"
      "sim_committed s' = fst (process_tables sim_codec ev payload (sim_committed s))"
    using sim_db.ProcessEventTx_succeeds [OF _ _ _ assms(2,3)] assms(1) by (auto simp: demo_ok_def)
  moreover from this assms have "demo_ok s'"
    by (simp add: demo_ok_def consistent_process_tables validateEvent_known
        sim_db.storable_process_tables)
  ultimately show thesis using that by blast
qed

definition demo_start :: sim where
  "demo_start = sim_start empty_tables []"

lemma demo_start_ok: "demo_ok demo_start" "sim_committed demo_start = empty_tables"
  by (simp_all add: demo_start_def demo_ok_def sim_start_def sim_available_def consistent_empty)

lemma demo_start_consistent: "consistent (sim_committed demo_start)"
  by (simp add: demo_start_ok(2) consistent_empty)

lemma demo_created_storable: "event_storable sim_codec demo_created ''{}''"
  by (simp add: event_storable_def demo_created_def sim_codec_def sublist_Cons_right)

lemma demo_created_run:
  assumes "demo_ok s"
  obtains s' r where "ProcessEventTx (pgsim sim_codec) demo_created s = Some (s', Inr r)"
    and "demo_ok s'"
  using demo_run [OF assms validate_demo_created demo_created_storable] by metis

section \<open>The transaction\<close>

text \<open>
  C3: A successful \<open>ProcessEventTx\<close> did exactly what the specification \<open>process_tables\<close> says:
  the event was valid, and the durable tables and the returned result are those of the
  specification applied to the durable tables before the call.
\<close>

theorem ProcessEventTx_refines:
  assumes "pg_session db c view committed in_tx"
    and "ProcessEventTx db ev s = Some (s', Inr r)"
  shows "\<exists>payload. validateEvent ev = Inr payload \<and>
    process_tables c ev payload (committed s) = (committed s', r)"
  using assms(2)
  by (cases rule: pg_session.ProcessEventTx_cases [OF assms(1), of ev s]) auto

theorem ProcessEventTx_refines_witness:
  "\<exists>s' r. ProcessEventTx (pgsim sim_codec) demo_created demo_start = Some (s', Inr r) \<and>
     (\<exists>payload. validateEvent demo_created = Inr payload \<and>
        process_tables sim_codec demo_created payload empty_tables = (sim_committed s', r))"
proof -
  obtain s' r where "ProcessEventTx (pgsim sim_codec) demo_created demo_start = Some (s', Inr r)"
    by (rule demo_created_run [OF demo_start_ok(1)])
  with ProcessEventTx_refines [OF demo_session this] show ?thesis
    by (auto simp: demo_start_ok(2))
qed

text \<open>
  C23: \<open>ProcessEventTx\<close> always returns: on every session that obeys the laws, the replay loop
  stops, whatever the pending rows are and wherever a statement fails.
\<close>

theorem ProcessEventTx_returns:
  assumes "pg_session db c view committed in_tx"
  shows "\<exists>s' r. ProcessEventTx db ev s = Some (s', r)"
  by (cases rule: pg_session.ProcessEventTx_cases [OF assms, of ev s]) auto

theorem ProcessEventTx_returns_witness:
  "\<exists>s' r. ProcessEventTx (pgsim sim_codec) demo_created
     (sim_start empty_tables [NoFault, NoFault, Fault ''connection reset'']) = Some (s', r)"
  by (rule ProcessEventTx_returns [OF demo_session])

text \<open>
  C11: Atomicity.  When \<open>ProcessEventTx\<close> returns an error, the durable tables are as before,
  except that a failing commit may have taken effect; then they are what the specification
  says for a successful call, never anything in between.
\<close>

theorem ProcessEventTx_atomic:
  assumes "pg_session db c view committed in_tx"
    and "ProcessEventTx db ev s = Some (s', Inl e)"
  shows "committed s' = committed s \<or>
    (\<exists>payload err. e = ErrCommit (EventID ev) err \<and> validateEvent ev = Inr payload \<and>
       committed s' = fst (process_tables c ev payload (committed s)))"
  using assms(2)
  by (cases rule: pg_session.ProcessEventTx_cases [OF assms(1), of ev s]) auto

theorem ProcessEventTx_atomic_witness:
  "\<exists>s' e. ProcessEventTx (pgsim sim_codec) demo_created (sim_start empty_tables [Fault ''down'']) =
       Some (s', Inl e) \<and>
     (sim_committed s' = empty_tables \<or>
      (\<exists>payload err. e = ErrCommit (EventID demo_created) err \<and>
         validateEvent demo_created = Inr payload \<and>
         sim_committed s' = fst (process_tables sim_codec demo_created payload empty_tables)))"
proof -
  let ?s = "sim_start empty_tables [Fault ''down'']"
  have run: "ProcessEventTx (pgsim sim_codec) demo_created ?s =
      Some (sim_tick ?s, Inl (ErrBegin (DbError ''down'')))"
    by (simp add: ProcessEventTx_def validate_demo_created pgsim_def sim_fault_def sim_start_def)
  from ProcessEventTx_atomic [OF demo_session run] have
    "sim_committed (sim_tick ?s) = empty_tables \<or>
      (\<exists>payload err. ErrBegin (DbError ''down'') = ErrCommit (EventID demo_created) err \<and>
         validateEvent demo_created = Inr payload \<and>
         sim_committed (sim_tick ?s) =
           fst (process_tables sim_codec demo_created payload empty_tables))"
    by (simp add: sim_start_def)
  with run show ?thesis by blast
qed

text \<open>
  C12: Progress.  On an available database whose tables are consistent, a valid event whose fields
  the server can store is always processed: no statement of the transaction runs into a primary
  key, unique, foreign key or check constraint, and the next event finds the same conditions.
\<close>

theorem ProcessEventTx_progress:
  assumes "pg_available db c view committed in_tx available"
    and "available s" and "consistent (committed s)" and "storable c (committed s)"
    and "validateEvent ev = Inr payload" and "event_storable c ev payload"
  shows "\<exists>s' r. ProcessEventTx db ev s = Some (s', Inr r) \<and> available s' \<and>
    consistent (committed s') \<and> storable c (committed s')"
  using pg_available.ProcessEventTx_succeeds [OF assms] assms(3)
    consistent_process_tables [OF assms(3) validateEvent_known [OF assms(5)]]
    pg_available.storable_process_tables [OF assms(1,4,6)] by metis

theorem ProcessEventTx_progress_witness:
  "\<exists>s' r. ProcessEventTx (pgsim sim_codec) demo_created demo_start = Some (s', Inr r) \<and>
     sim_available s' \<and> consistent (sim_committed s') \<and> storable sim_codec (sim_committed s')"
  using demo_start_ok(1) ProcessEventTx_progress [OF demo_available, of demo_start,
      OF _ _ _ validate_demo_created demo_created_storable]
  by (simp add: demo_ok_def)

text \<open>
  C4: The invariant of the durable tables is kept by every call, successful or not: order rows
  are the last entry of a legal history, every processed event is accounted for in exactly one
  place, and the rows agree with the idempotency records.
\<close>

theorem ProcessEventTx_consistent:
  assumes "pg_session db c view committed in_tx"
    and "consistent (committed s)" and "ProcessEventTx db ev s = Some (s', r)"
  shows "consistent (committed s')"
proof -
  have *: "consistent (fst (process_tables c ev payload (committed s)))"
    if "validateEvent ev = Inr payload" for payload
    using assms(2) validateEvent_known [OF that] by (rule consistent_process_tables)
  show ?thesis
    by (cases rule: pg_session.ProcessEventTx_cases [OF assms(1), of ev s])
       (use assms(2,3) * in \<open>auto simp: process_tables_def\<close>)
qed

theorem ProcessEventTx_consistent_witness:
  "\<exists>s' r. ProcessEventTx (pgsim sim_codec) demo_created demo_start = Some (s', r) \<and>
     consistent (sim_committed s')"
proof -
  obtain s' r where "ProcessEventTx (pgsim sim_codec) demo_created demo_start = Some (s', Inr r)"
    by (rule demo_created_run [OF demo_start_ok(1)])
  with ProcessEventTx_consistent [OF demo_session demo_start_consistent this] show ?thesis by blast
qed



text \<open>
  C6: Effectively once.  A worker that retries after any error of \<open>ProcessEventTx\<close>, including
  a commit whose outcome is unknown, ends with the tables a single successful call would have
  left: the event is applied once, not zero or two times.
\<close>

theorem retry_effectively_once:
  assumes "pg_session db c view committed in_tx"
    and "ProcessEventTx db ev s = Some (s1, Inl e)" and "committed s2 = committed s1"
    and "ProcessEventTx db ev s2 = Some (s3, Inr r)"
  shows "\<exists>payload. validateEvent ev = Inr payload \<and>
    committed s3 = fst (process_tables c ev payload (committed s))"
proof -
  obtain p where p: "validateEvent ev = Inr p"
      "process_tables c ev p (committed s2) = (committed s3, r)"
    using pg_session.ok_run [OF assms(1,4)] by blast
  consider (same) "committed s1 = committed s"
    | (applied) payload where "validateEvent ev = Inr payload"
        "committed s1 = fst (process_tables c ev payload (committed s))"
    using pg_session.failed_run [OF assms(1,2)] by blast
  then show ?thesis
  proof cases
    case same
    with p assms(3) show ?thesis by simp
  next
    case (applied payload)
    with p assms(3) process_tables_again [of ev ev c p payload "committed s"] show ?thesis by simp
  qed
qed

theorem retry_effectively_once_witness:
  "\<exists>s1 e s3 r. ProcessEventTx (pgsim sim_codec) demo_created
       (sim_start empty_tables [Fault ''down'']) = Some (s1, Inl e) \<and>
     ProcessEventTx (pgsim sim_codec) demo_created s1 = Some (s3, Inr r) \<and>
     (\<exists>payload. validateEvent demo_created = Inr payload \<and>
        sim_committed s3 = fst (process_tables sim_codec demo_created payload empty_tables))"
proof -
  let ?s = "sim_start empty_tables [Fault ''down'']"
  have run: "ProcessEventTx (pgsim sim_codec) demo_created ?s =
      Some (sim_tick ?s, Inl (ErrBegin (DbError ''down'')))"
    by (simp add: ProcessEventTx_def validate_demo_created pgsim_def sim_fault_def sim_start_def)
  have "demo_ok (sim_tick ?s)"
    by (simp add: demo_ok_def sim_available_def sim_tick_def sim_start_def consistent_empty)
  then obtain s3 r where two:
      "ProcessEventTx (pgsim sim_codec) demo_created (sim_tick ?s) = Some (s3, Inr r)"
    by (rule demo_created_run)
  from retry_effectively_once [OF demo_session run refl two] run two show ?thesis
    by (auto simp: sim_start_def)
qed

text \<open>
  C10: Lifecycle safety.  Whatever a call does, and whether it succeeds or fails, the status of
  every order moves along the lifecycle of ADR 004 only: from its old stage the new stage is
  reachable by allowed transitions (no order is ever set back or revived).
\<close>

theorem status_moves_along_lifecycle:
  assumes "pg_session db c view committed in_tx"
    and "consistent (committed s)" and "ProcessEventTx db ev s = Some (s', r)"
  shows "\<exists>a b. current_of (select_current_status oid (committed s)) = status_of a \<and>
    current_of (select_current_status oid (committed s')) = status_of b \<and> lifecycle\<^sup>*\<^sup>* a b"
proof -
  have stay: "advances (select_current_status oid (committed s)) (select_current_status oid (committed s))"
    using assms(2) by (rule advances_refl)
  have move: "advances (select_current_status oid (committed s))
      (select_current_status oid (fst (process_tables c ev payload (committed s))))"
    if "validateEvent ev = Inr payload" for payload
    using assms(2) validateEvent_known [OF that] by (rule advances_process_tables)
  have "advances (select_current_status oid (committed s)) (select_current_status oid (committed s'))"
    by (cases rule: pg_session.ProcessEventTx_cases [OF assms(1), of ev s])
       (use assms(3) stay move in auto)
  then show ?thesis by (simp add: advances_def)
qed

theorem status_moves_along_lifecycle_witness:
  "\<exists>s' r. ProcessEventTx (pgsim sim_codec) demo_created demo_start = Some (s', r) \<and>
     (\<exists>a b. current_of (select_current_status ''o1'' (sim_committed demo_start)) = status_of a \<and>
        current_of (select_current_status ''o1'' (sim_committed s')) = status_of b \<and> lifecycle\<^sup>*\<^sup>* a b)"
proof -
  obtain s' r where "ProcessEventTx (pgsim sim_codec) demo_created demo_start = Some (s', Inr r)"
    by (rule demo_created_run [OF demo_start_ok(1)])
  with status_moves_along_lifecycle [OF demo_session demo_start_consistent this] show ?thesis by blast
qed

end
