(* ===== verification/Repository_Orders.thy ===== *)
theory Repository_Orders
  imports Repository_Properties
begin

text \<open>
  Orders are independent of each other (ADR 003 locks per order, not per table).  The part of
  the tables that belongs to one order, \<open>slice_of oid t\<close>, is itself a set of tables; a
  transaction for an order acts on its slice as it acts on the whole, and leaves every other
  slice alone.  Hence the interleaving of the transactions of different orders does not matter.
\<close>

section \<open>The tables of one order\<close>

definition processed_of :: "string \<Rightarrow> tables \<Rightarrow> string \<rightharpoonup> processed_row" where
  "processed_of oid t eid =
     (case processed_events t eid of
        None \<Rightarrow> None
      | Some r \<Rightarrow> if pr_order_id r = oid then Some r else None)"

definition slice_of :: "string \<Rightarrow> tables \<Rightarrow> tables" where
  "slice_of oid t =
     \<lparr>orders = orders t |` {oid}, processed_events = processed_of oid t,
      order_status_history = history_of oid t, pending_events = pending_of oid t,
      dead_letter_events = dead_letters_of oid t\<rparr>"

text \<open>An event id is used for one order only.\<close>

definition owned :: "OrderEvent \<Rightarrow> tables \<Rightarrow> bool" where
  "owned ev t \<longleftrightarrow> pred_option (\<lambda>r. pr_order_id r = OrderID ev) (processed_events t (EventID ev))"

lemmas slice_defs = slice_of_def history_of_def pending_of_def dead_letters_of_def

lemma tables_eqI:
  assumes "orders t = orders u" and "processed_events t = processed_events u"
    and "order_status_history t = order_status_history u"
    and "pending_events t = pending_events u" and "dead_letter_events t = dead_letter_events u"
  shows "t = (u::tables)"
  using assms by (cases t; cases u) simp

section \<open>Effects on the slice of their own order\<close>

lemma slice_settle: "slice_of oid (settle eid out t) = settle eid out (slice_of oid t)"
  by (rule tables_eqI)
     (auto simp: slice_defs settle_def processed_of_def fun_eq_iff split: option.split)

lemma slice_drop: "slice_of oid (drop_pending eid t) = drop_pending eid (slice_of oid t)"
  by (rule tables_eqI)
     (auto simp: slice_defs drop_pending_def processed_of_def fun_eq_iff conj_commute
       split: option.split)

lemma slice_own:
  assumes "OrderID ev = oid"
  shows "slice_of oid (accept c ev from t) = accept c ev from (slice_of oid t)"
    and "slice_of oid (record_as c ev out t) = record_as c ev out (slice_of oid t)"
    and "slice_of oid (defer_event c ev reason payload t) = defer_event c ev reason payload (slice_of oid t)"
    and "slice_of oid (bury c ev reason payload t) = bury c ev reason payload (slice_of oid t)"
  by (rule tables_eqI;
      use assms in \<open>auto simp: slice_defs accept_def record_as_def defer_event_def bury_def
        processed_of_def fun_eq_iff restrict_map_def split: option.split\<close>)+

lemma slice_replay_round:
  "pe_order_id row = oid \<Longrightarrow>
   slice_of oid (replay_round c current (pending_event row) t) =
     replay_round c current (pending_event row) (slice_of oid t)"
  by (simp add: replay_round_def Let_def slice_drop slice_settle slice_own)

lemma slice_select [simp]:
  "select_next_pending c oid (slice_of oid t) = select_next_pending c oid t"
  "select_current_status oid (slice_of oid t) = select_current_status oid t"
  by (simp_all add: select_next_pending_def select_current_status_def slice_defs restrict_map_def)

lemma slice_replay_tables:
  "replay_tables c oid current n (slice_of oid t) =
     (slice_of oid (fst (replay_tables c oid current n t)), snd (replay_tables c oid current n t))"
proof (induction c oid current n t rule: replay_tables.induct)
  case (1 c oid current n t)
  show ?case
  proof (cases "select_next_pending c oid t")
    case None
    then show ?thesis by (simp add: replay_tables.simps [of c oid current n])
  next
    case (Some row)
    then have "pe_order_id row = oid" by (auto dest: select_next_pending_SomeD)
    with 1 [OF Some refl refl] Some show ?thesis
      by (simp add: replay_tables.simps [of c oid current n] Let_def
          slice_replay_round [symmetric])
  qed
qed

lemma slice_process_tables:
  assumes "owned ev t" and "OrderID ev = oid"
  shows "process_tables c ev payload (slice_of oid t) =
    (slice_of oid (fst (process_tables c ev payload t)), snd (process_tables c ev payload t))"
proof -
  have known: "processed_events (slice_of oid t) (EventID ev) = None \<longleftrightarrow>
      processed_events t (EventID ev) = None"
    using assms by (auto simp: slice_of_def processed_of_def owned_def split: option.split)
  have "slice_of oid (register c ev t) = register c ev (slice_of oid t)"
    using slice_own(2) [OF assms(2), of c outcomeReceived t] by (simp add: register_def record_as_def)
  then have own: "settle eid out (register c ev (slice_of oid t)) =
        slice_of oid (settle eid out (register c ev t))"
      "settle eid out (accept c ev from (register c ev (slice_of oid t))) =
        slice_of oid (settle eid out (accept c ev from (register c ev t)))"
      "settle eid out (defer_event c ev reason payload (register c ev (slice_of oid t))) =
        slice_of oid (settle eid out (defer_event c ev reason payload (register c ev t)))"
      "settle eid out (bury c ev reason payload (register c ev (slice_of oid t))) =
        slice_of oid (settle eid out (bury c ev reason payload (register c ev t)))"
    for eid out "from" reason
    by (simp_all add: slice_settle slice_own [OF assms(2)])
  with known show ?thesis
    by (simp add: process_tables_def route_tables_def Let_def assms(2) own slice_replay_tables
        case_prod_beta)
qed

section \<open>Effects on the slices of other orders\<close>

lemma slice_other:
  assumes "OrderID ev \<noteq> oid"
  shows "slice_of oid (accept c ev from t) = slice_of oid t"
    and "slice_of oid (defer_event c ev reason payload t) = slice_of oid t"
    and "slice_of oid (bury c ev reason payload t) = slice_of oid t"
    and "processed_events t (EventID ev) = None \<Longrightarrow> slice_of oid (record_as c ev out t) = slice_of oid t"
  by (rule tables_eqI;
      use assms in \<open>auto simp: slice_defs accept_def record_as_def defer_event_def bury_def
        processed_of_def fun_eq_iff restrict_map_def split: option.split\<close>)+

lemma slice_settle_other:
  assumes "recorded t eid oid' st" and "oid' \<noteq> oid"
  shows "slice_of oid (settle eid out t) = slice_of oid t"
  using assms
  by (intro tables_eqI)
     (auto simp: slice_defs settle_def recorded_def processed_of_def fun_eq_iff split: option.split)

lemma slice_drop_other:
  assumes "row \<in> set (pending_events t)" and "distinct (map pe_event_id (pending_events t))"
    and "pe_order_id row \<noteq> oid"
  shows "slice_of oid (drop_pending (pe_event_id row) t) = slice_of oid t"
proof -
  have "pe_event_id r \<noteq> pe_event_id row" if "r \<in> set (pending_events t)" "pe_order_id r = oid" for r
    using assms that by (auto simp: distinct_map dest: inj_onD)
  then have "filter (\<lambda>r. pe_event_id r \<noteq> pe_event_id row \<and> pe_order_id r = oid) (pending_events t) =
      filter (\<lambda>r. pe_order_id r = oid) (pending_events t)"
    by (intro filter_cong) auto
  then show ?thesis
    by (intro tables_eqI) (simp_all add: slice_defs drop_pending_def processed_of_def fun_eq_iff)
qed

lemma slice_replay_round_other:
  assumes "consistent t" and "row \<in> set (pending_events t)" and "pe_order_id row \<noteq> oid"
  shows "slice_of oid (replay_round c current (pending_event row) t) = slice_of oid t"
proof -
  have rec: "recorded t (pe_event_id row) (pe_order_id row) (pe_status row)"
    and dist: "distinct (map pe_event_id (pending_events t))"
    using assms(1,2) by (auto simp: consistent_def matching_def accounted_def)
  have "slice_of oid (drop_pending (pe_event_id row) (settle (pe_event_id row) out u)) = slice_of oid u"
    if "recorded u (pe_event_id row) (pe_order_id row) (pe_status row)"
      "pending_events u = pending_events t" for u out
    using that assms(2,3) dist
    by (subst slice_drop_other) (auto intro: slice_settle_other)
  with rec assms(3) show ?thesis
    by (simp add: replay_round_def Let_def slice_other)
qed

lemma slice_process_other:
  assumes "consistent t" and "isKnown (Status ev)" and "OrderID ev \<noteq> oid"
  shows "slice_of oid (fst (process_tables c ev payload t)) = slice_of oid t"
proof (cases rule: process_tables_cases [of t ev c payload])
  case applied
  let ?t = "accept c ev (select_current_status (OrderID ev) t) (record_as c ev ClassificationApplied t)"
  let ?P = "\<lambda>u. consistent u \<and> slice_of oid u = slice_of oid t"
  have "?P ?t"
    using consistent_accept_new [OF assms(1,2) applied(1,2)] assms(3) applied(1)
    by (simp add: slice_other)
  then have "?P (fst (replay_tables c (OrderID ev) (Status ev) 0 ?t))"
    by (rule replay_tables_rounds)
       (use assms(3) in \<open>auto simp: consistent_replay_round slice_replay_round_other\<close>)
  with applied(3) show ?thesis by (simp add: case_prod_beta)
qed (use assms(3) in \<open>simp_all add: slice_other\<close>)

section \<open>Sequences of transactions\<close>

text \<open>A sequence of committed events, each with its validated payload.\<close>

type_synonym arrivals = "(OrderEvent \<times> string) list"

primrec run_tables :: "pg_codec \<Rightarrow> arrivals \<Rightarrow> tables \<Rightarrow> tables" where
  "run_tables c [] t = t"
| "run_tables c (a # as) t = run_tables c as (fst (process_tables c (fst a) (snd a) t))"

definition for_order :: "string \<Rightarrow> arrivals \<Rightarrow> arrivals" where
  "for_order oid as = filter (\<lambda>a. OrderID (fst a) = oid) as"

text \<open>Ids are used for one order each, in the tables and among the arrivals.\<close>

definition well_owned :: "arrivals \<Rightarrow> tables \<Rightarrow> bool" where
  "well_owned as t \<longleftrightarrow>
     (\<forall>a \<in> set as. isKnown (Status (fst a)) \<and> owned (fst a) t \<and>
        (\<forall>b \<in> set as. EventID (fst b) = EventID (fst a) \<longrightarrow> OrderID (fst b) = OrderID (fst a)))"

abbreviation order_of :: "tables \<Rightarrow> string \<Rightarrow> string option" where
  "order_of t eid \<equiv> map_option pr_order_id (processed_events t eid)"

lemma order_of_settle [simp]: "order_of (settle eid out t) x = order_of t x"
  by (cases "processed_events t x") (auto simp: settle_def)

lemma order_of_replay_tables:
  assumes "select_current_status oid t = Some cur"
  shows "order_of (fst (replay_tables c oid cur n t)) x = order_of t x"
  using refl assms
  by (rule replay_tables_rounds [where P = "\<lambda>u. order_of u x = order_of t x"])
     (simp add: replay_round_def Let_def)

lemma order_of_process_tables:
  "order_of (fst (process_tables c ev payload t)) x =
     (if x = EventID ev \<and> processed_events t x = None then Some (OrderID ev) else order_of t x)"
proof (cases rule: process_tables_cases [of t ev c payload])
  case applied
  let ?t = "accept c ev (select_current_status (OrderID ev) t) (record_as c ev ClassificationApplied t)"
  have "select_current_status (OrderID ev) ?t = Some (Status ev)" by simp
  from order_of_replay_tables [OF this, of c 0 x] applied(1,3) show ?thesis
    by (simp add: case_prod_beta)
qed auto

lemma owned_iff: "owned ev t \<longleftrightarrow> pred_option (\<lambda>oid. oid = OrderID ev) (order_of t (EventID ev))"
  by (simp add: owned_def option.pred_map comp_def)

lemma owned_process:
  assumes "owned ev' t" and "EventID ev = EventID ev' \<longrightarrow> OrderID ev = OrderID ev'"
  shows "owned ev' (fst (process_tables c ev payload t))"
  using assms by (simp add: owned_iff order_of_process_tables)

lemma well_ownedD:
  assumes "well_owned as t" and "a \<in> set as"
  shows "isKnown (Status (fst a))" and "owned (fst a) t"
    and "b \<in> set as \<Longrightarrow> EventID (fst b) = EventID (fst a) \<longrightarrow> OrderID (fst b) = OrderID (fst a)"
  using assms unfolding well_owned_def by blast+

lemma well_owned_Cons:
  assumes "well_owned (a # as) t"
  shows "well_owned as (fst (process_tables c (fst a) (snd a) t))"
proof -
  note hd = well_ownedD [OF assms list.set_intros(1)]
  note tl = well_ownedD [OF assms list.set_intros(2)]
  have "owned (fst b) (fst (process_tables c (fst a) (snd a) t))" if "b \<in> set as" for b
    using tl(2) [OF that] tl(3) [OF that list.set_intros(1)] by (rule owned_process)
  with tl show ?thesis unfolding well_owned_def by (meson list.set_intros(2))
qed

lemma slice_run_tables:
  assumes "consistent t" and "well_owned as t"
  shows "slice_of oid (run_tables c as t) = run_tables c (for_order oid as) (slice_of oid t)"
  using assms
proof (induction as arbitrary: t)
  case Nil
  then show ?case by (simp add: for_order_def)
next
  case (Cons a as)
  note a = well_ownedD(1,2) [OF Cons.prems(2) list.set_intros(1)] well_owned_Cons [OF Cons.prems(2)]
  have "slice_of oid (run_tables c (a # as) t) =
      run_tables c (for_order oid as) (slice_of oid (fst (process_tables c (fst a) (snd a) t)))"
    using Cons.IH [OF consistent_process_tables [OF Cons.prems(1) a(1)] a(3)] by simp
  then show ?case
    using slice_process_tables [OF a(2)] slice_process_other [OF Cons.prems(1) a(1)]
    by (cases "OrderID (fst a) = oid") (simp_all add: for_order_def)
qed

text \<open>
  C19: A call for one order, whatever its outcome, leaves the rows of every other order in all
  five tables as they are.
\<close>

theorem other_orders_untouched:
  assumes "pg_session db c view committed in_tx" and "consistent (committed s)"
    and "ProcessEventTx db ev s = Some (s', r)" and "OrderID ev \<noteq> oid"
  shows "slice_of oid (committed s') = slice_of oid (committed s)"
proof -
  have *: "slice_of oid (fst (process_tables c ev payload (committed s))) = slice_of oid (committed s)"
    if "validateEvent ev = Inr payload" for payload
    using assms(2) validateEvent_known [OF that] assms(4) by (rule slice_process_other)
  show ?thesis
    by (cases rule: pg_session.ProcessEventTx_cases [OF assms(1), of ev s]) (use assms(3) * in auto)
qed

theorem other_orders_untouched_witness:
  "\<exists>s' r. ProcessEventTx (pgsim sim_codec) demo_created demo_start = Some (s', r) \<and>
     slice_of ''o2'' (sim_committed s') = slice_of ''o2'' (sim_committed demo_start)"
proof -
  obtain s' r where "ProcessEventTx (pgsim sim_codec) demo_created demo_start = Some (s', Inr r)"
    by (rule demo_created_run [OF demo_start_ok(1)])
  with other_orders_untouched [OF demo_session demo_start_consistent this, of "''o2''"] show ?thesis
    by (auto simp: demo_created_def)
qed

end
