(* ===== verification/Repository_Arrivals.thy ===== *)
theory Repository_Arrivals
  imports Repository_Orders "HOL-Library.Multiset"
begin

text \<open>
  Arrival orders.  Sequences of successful transactions on a session, the independence of the
  orders in them, and what the arrival order of one order's events does to its final state:
  a complete lifecycle whose timestamps follow the lifecycle always converges; a cancellation
  that overtakes the creation, and timestamps against the lifecycle, do not.
\<close>

section \<open>Sequences of calls\<close>

text \<open>Calls of \<open>ProcessEventTx\<close> one after the other, all of them successful.\<close>

primrec process_all :: "'s dbTransaction \<Rightarrow> OrderEvent list \<Rightarrow> 's \<Rightarrow> 's option" where
  "process_all db [] s = Some s"
| "process_all db (ev # evs) s =
     (case ProcessEventTx db ev s of
        Some (s', Inr r) \<Rightarrow> process_all db evs s'
      | _ \<Rightarrow> None)"

text \<open>The arrivals of a list of valid events.\<close>

definition arrival :: "OrderEvent \<Rightarrow> OrderEvent \<times> string" where
  "arrival ev = (ev, case validateEvent ev of Inr payload \<Rightarrow> payload | Inl _ \<Rightarrow> '''')"

definition valid_event :: "OrderEvent \<Rightarrow> bool" where
  "valid_event ev \<longleftrightarrow> (case validateEvent ev of Inr _ \<Rightarrow> True | Inl _ \<Rightarrow> False)"

context pg_session
begin

lemma process_all_tables:
  assumes "process_all db evs s = Some s'"
  shows "committed s' = run_tables codec (map arrival evs) (committed s)"
    and "\<forall>ev \<in> set evs. valid_event ev"
  using assms
proof (induction evs arbitrary: s)
  case (Cons ev evs)
  {
    case 1
    then obtain s1 r where "ProcessEventTx db ev s = Some (s1, Inr r)" "process_all db evs s1 = Some s'"
      by (auto split: option.splits sum.splits)
    moreover from this(1) obtain payload where "validateEvent ev = Inr payload"
        "process_tables codec ev payload (committed s) = (committed s1, r)"
      by (rule ok_run)
    ultimately show ?case using Cons.IH(1) [of s1] by (simp add: arrival_def)
  next
    case 2
    then obtain s1 r where "ProcessEventTx db ev s = Some (s1, Inr r)" "process_all db evs s1 = Some s'"
      by (auto split: option.splits sum.splits)
    moreover from this(1) obtain payload where "validateEvent ev = Inr payload"
      by (rule ok_run)
    ultimately show ?case using Cons.IH(2) [of s1] by (simp add: valid_event_def)
  }
qed simp_all

end

lemma valid_known: "valid_event ev \<Longrightarrow> isKnown (Status ev)"
  by (auto simp: valid_event_def validateEvent_known split: sum.splits)

text \<open>No two orders share an event id, in the tables and among the events.\<close>

definition ids_owned :: "OrderEvent list \<Rightarrow> tables \<Rightarrow> bool" where
  "ids_owned evs t \<longleftrightarrow>
     (\<forall>ev \<in> set evs. owned ev t \<and>
        (\<forall>ev' \<in> set evs. EventID ev' = EventID ev \<longrightarrow> OrderID ev' = OrderID ev))"

lemma fst_arrival [simp]: "fst (arrival ev) = ev"
  by (simp add: arrival_def)

lemma well_owned_arrivals:
  assumes "ids_owned evs t" and "\<forall>ev \<in> set evs. valid_event ev"
  shows "well_owned (map arrival evs) t"
  using assms valid_known
  unfolding well_owned_def ids_owned_def set_map ball_simps fst_arrival by blast

lemma for_order_arrivals:
  "for_order oid (map arrival evs) = map arrival (filter (\<lambda>ev. OrderID ev = oid) evs)"
  by (simp add: for_order_def filter_map comp_def arrival_def)

lemma slice_process_all:
  assumes "pg_session db c view committed in_tx" and "consistent (committed s)"
    and "ids_owned evs (committed s)" and "process_all db evs s = Some s'"
  shows "slice_of oid (committed s') =
    run_tables c (map arrival (filter (\<lambda>ev. OrderID ev = oid) evs)) (slice_of oid (committed s))"
  using pg_session.process_all_tables [OF assms(1,4)]
    slice_run_tables [OF assms(2) well_owned_arrivals [OF assms(3)], of oid c]
  by (simp add: for_order_arrivals)


lemma demo_process_all:
  assumes "demo_ok s" and "\<forall>ev \<in> set evs. event_storable sim_codec ev (snd (arrival ev)) \<and> valid_event ev"
  obtains s' where "process_all (pgsim sim_codec) evs s = Some s'" and "demo_ok s'"
proof -
  from assms have "\<exists>s'. process_all (pgsim sim_codec) evs s = Some s' \<and> demo_ok s'"
  proof (induction evs arbitrary: s)
    case (Cons ev evs)
    then obtain payload where p: "validateEvent ev = Inr payload" "event_storable sim_codec ev payload"
      by (auto simp: valid_event_def arrival_def split: sum.splits)
    obtain s1 where "ProcessEventTx (pgsim sim_codec) ev s =
        Some (s1, Inr (snd (process_tables sim_codec ev payload (sim_committed s))))" "demo_ok s1"
      using demo_run [OF Cons.prems(1) p] by metis
    with Cons.IH [of s1] Cons.prems(2) show ?case by simp
  qed simp
  with that show thesis by blast
qed

text \<open>Events of the demonstrations: short ids, whole seconds.\<close>

lemma demo_event_arrival:
  assumes "isKnown st" and "oid \<in> {''a'', ''b''}" and "eid \<in> {''1'', ''2'', ''3''}" and "ts \<in> {1000, 2000, 3000}"
  shows "event_storable sim_codec (demo_event eid oid st ts) (snd (arrival (demo_event eid oid st ts))) \<and>
    valid_event (demo_event eid oid st ts)"
proof -
  have "validateEvent (demo_event eid oid st ts) = Inr ''{}''"
    using assms by (intro validate_demo_event) auto
  then show ?thesis
    using assms by (auto simp: event_storable_def arrival_def valid_event_def sim_codec_def
        sublist_Cons_right)
qed

lemma owned_empty [simp]: "owned ev empty_tables"
  by (simp add: owned_def empty_tables_def)


section \<open>Convergence of a complete lifecycle\<close>

text \<open>What the transactions leave of an order, as rows.\<close>

definition history_entry :: "pg_codec \<Rightarrow> OrderEvent \<Rightarrow> string option \<Rightarrow> gotime \<Rightarrow> history_row" where
  "history_entry c ev from ts = \<lparr>h_event_id = EventID ev, h_order_id = OrderID ev,
     h_from_status = from, h_to_status = Status ev, h_event_timestamp = ts\<rparr>"

lemma permutations_of_three:
  assumes "mset xs = {#a, b, d#}"
  shows "xs \<in> {[a, b, d], [a, d, b], [b, a, d], [b, d, a], [d, a, b], [d, b, a]}"
proof -
  from assms have "length xs = 3" by (metis size_mset size_add_mset size_empty numeral_3_eq_3)
  then obtain x y z where xs: "xs = [x, y, z]"
    by (auto simp: numeral_3_eq_3 length_Suc_conv)
  with assms show ?thesis by (auto simp: add_eq_conv_ex)
qed

lemmas eval_tables = process_tables_def route_tables_def register_def accept_def settle_def
  defer_event_def drop_pending_def bury_def select_current_status_def select_next_pending_def
  empty_tables_def replay_tables.simps replay_round_def current_of_def pending_before_def
  EvaluateTransition_def base_result_def

text \<open>The three events of an order's complete lifecycle, with times that follow it.\<close>

definition lifecycle_events :: "pg_codec \<Rightarrow> string \<Rightarrow> OrderEvent \<Rightarrow> OrderEvent \<Rightarrow> OrderEvent \<Rightarrow> bool" where
  "lifecycle_events c oid e1 e2 e3 \<longleftrightarrow>
     distinct [EventID e1, EventID e2, EventID e3] \<and>
     OrderID e1 = oid \<and> OrderID e2 = oid \<and> OrderID e3 = oid \<and>
     Status e1 = StatusCreated \<and> Status e2 = StatusPaid \<and> Status e3 = StatusShipped \<and>
     tstz c (Timestamp e1) < tstz c (Timestamp e2) \<and> tstz c (Timestamp e2) < tstz c (Timestamp e3)"

text \<open>
  The stored time of an event that waited in \<open>pending_events\<close> goes through the column type
  twice; a server gives back what it stores.
\<close>

definition stable_times :: "pg_codec \<Rightarrow> bool" where
  "stable_times c \<longleftrightarrow> (\<forall>ts. tstz c (tstz c ts) = tstz c ts)"

definition shipped_tables :: "pg_codec \<Rightarrow> OrderEvent \<Rightarrow> OrderEvent \<Rightarrow> OrderEvent \<Rightarrow> tables \<Rightarrow> bool" where
  "shipped_tables c e1 e2 e3 t \<longleftrightarrow>
     order_status_history t = [history_entry c e1 None (tstz c (Timestamp e1)),
       history_entry c e2 (Some StatusCreated) (tstz c (Timestamp e2)),
       history_entry c e3 (Some StatusPaid) (tstz c (Timestamp e3))] \<and>
     select_current_status (OrderID e1) t = Some StatusShipped \<and>
     pending_events t = [] \<and> dead_letter_events t = []"

lemma lifecycle_converges:
  assumes "lifecycle_events c oid e1 e2 e3" and "stable_times c"
    and "mset as = {#(e1, p1), (e2, p2), (e3, p3)#}"
  shows "shipped_tables c e1 e2 e3 (run_tables c as empty_tables)"
proof -
  from assms(2) have stable: "tstz c (tstz c ts) = tstz c ts" for ts by (simp add: stable_times_def)
  from assms(1) have ids: "EventID e1 \<noteq> EventID e2" "EventID e2 \<noteq> EventID e1"
      "EventID e1 \<noteq> EventID e3" "EventID e3 \<noteq> EventID e1" "EventID e2 \<noteq> EventID e3" "EventID e3 \<noteq> EventID e2"
    and events: "OrderID e1 = oid" "OrderID e2 = oid" "OrderID e3 = oid"
      "Status e1 = StatusCreated" "Status e2 = StatusPaid" "Status e3 = StatusShipped"
    and times: "tstz c (Timestamp e1) < tstz c (Timestamp e2)" "tstz c (Timestamp e2) < tstz c (Timestamp e3)"
      "tstz c (Timestamp e1) \<noteq> tstz c (Timestamp e2)" "tstz c (Timestamp e2) \<noteq> tstz c (Timestamp e3)"
      "\<not> tstz c (Timestamp e2) < tstz c (Timestamp e1)" "\<not> tstz c (Timestamp e3) < tstz c (Timestamp e2)"
      "tstz c (Timestamp e3) \<noteq> tstz c (Timestamp e2)" "tstz c (Timestamp e2) \<noteq> tstz c (Timestamp e1)"
    by (auto simp: lifecycle_events_def)
  from permutations_of_three [OF assms(3)] show ?thesis
    by (elim insertE emptyE;
        simp add: eval_tables Let_def pending_event_def stable ids events times cong: if_weak_cong)
       (simp_all add: shipped_tables_def select_current_status_def history_entry_def events)
qed


lemma slice_of_empty [simp]: "slice_of oid empty_tables = empty_tables"
  by (simp add: slice_defs empty_tables_def processed_of_def fun_eq_iff)

lemma stable_sim_codec: "stable_times sim_codec"
  by (simp add: stable_times_def sim_codec_def)


section \<open>Arrival orders that are not repaired\<close>

lemma overtaking_cancel_tables:
  assumes "EventID e1 \<noteq> EventID e2" and "OrderID e1 = oid" and "OrderID e2 = oid"
    and "Status e1 = StatusCreated" and "Status e2 = StatusCancelled"
  shows "select_current_status oid (run_tables c [(e2, p2), (e1, p1)] empty_tables) = Some StatusCreated"
    and "map dl_event_id (dead_letter_events (run_tables c [(e2, p2), (e1, p1)] empty_tables)) = [EventID e2]"
    and "select_current_status oid (run_tables c [(e1, p1), (e2, p2)] empty_tables) = Some StatusCancelled"
  using assms assms(1) [symmetric] by (simp_all add: eval_tables Let_def)

text \<open>
  C25: A cancellation that overtakes the creation is lost: when the cancellation of a new order is
  processed before its creation, it goes to the dead letters and the order ends as created,
  although in the sent order the same two events leave it cancelled.
\<close>

theorem overtaking_cancel_is_lost:
  assumes "pg_session db c view committed in_tx" and "consistent (committed s)"
    and "slice_of oid (committed s) = empty_tables"
    and "EventID e1 \<noteq> EventID e2" and "OrderID e1 = oid" and "OrderID e2 = oid"
    and "Status e1 = StatusCreated" and "Status e2 = StatusCancelled"
    and "ids_owned [e1, e2] (committed s)"
    and "process_all db [e2, e1] s = Some s1" and "process_all db [e1, e2] s = Some s2"
  shows "select_current_status oid (committed s1) = Some StatusCreated \<and>
    map dl_event_id (dead_letters_of oid (committed s1)) = [EventID e2] \<and>
    select_current_status oid (committed s2) = Some StatusCancelled"
proof -
  have "ids_owned [e2, e1] (committed s)"
    using assms(9) unfolding ids_owned_def by (metis empty_iff empty_set set_ConsD list.set_intros)
  note runs = slice_process_all [OF assms(1,2) this assms(10), of oid]
    slice_process_all [OF assms(1,2,9,11), of oid]
  have "dead_letters_of oid t = dead_letter_events (slice_of oid t)" for t by (simp add: slice_of_def)
  then show ?thesis
    using overtaking_cancel_tables [OF assms(4-8)] runs assms(3,5,6)
      slice_select(2) [of oid "committed s1"] slice_select(2) [of oid "committed s2"]
    by (simp add: arrival_def)
qed

theorem overtaking_cancel_is_lost_witness:
  "\<exists>s1 s2. process_all (pgsim sim_codec) [demo_event ''2'' ''a'' StatusCancelled 2000,
       demo_event ''1'' ''a'' StatusCreated 1000] demo_start = Some s1 \<and>
     process_all (pgsim sim_codec) [demo_event ''1'' ''a'' StatusCreated 1000,
       demo_event ''2'' ''a'' StatusCancelled 2000] demo_start = Some s2 \<and>
     select_current_status ''a'' (sim_committed s1) = Some StatusCreated \<and>
     select_current_status ''a'' (sim_committed s2) = Some StatusCancelled"
proof -
  let ?e1 = "demo_event ''1'' ''a'' StatusCreated 1000" and ?e2 = "demo_event ''2'' ''a'' StatusCancelled 2000"
  obtain s1 where s1: "process_all (pgsim sim_codec) [?e2, ?e1] demo_start = Some s1"
    by (rule demo_process_all [OF demo_start_ok(1), of "[?e2, ?e1]"]) (simp_all add: demo_event_arrival)
  obtain s2 where s2: "process_all (pgsim sim_codec) [?e1, ?e2] demo_start = Some s2"
    by (rule demo_process_all [OF demo_start_ok(1), of "[?e1, ?e2]"]) (simp_all add: demo_event_arrival)
  have "ids_owned [?e1, ?e2] (sim_committed demo_start)"
    by (auto simp: ids_owned_def demo_start_ok(2))
  from overtaking_cancel_is_lost [OF demo_session demo_start_consistent _ _ _ _ _ _ this s1 s2, of "''a''"]
  show ?thesis using s1 s2 by (simp add: demo_start_ok(2))
qed

lemma blocked_replay_tables:
  assumes "distinct [EventID e1, EventID e2, EventID e3]"
    and "OrderID e1 = oid" and "OrderID e2 = oid" and "OrderID e3 = oid"
    and "Status e1 = StatusCreated" and "Status e2 = StatusPaid" and "Status e3 = StatusShipped"
    and "tstz c (Timestamp e3) < tstz c (Timestamp e2)"
  shows "select_current_status oid (run_tables c [(e3, p3), (e2, p2), (e1, p1)] empty_tables) =
      Some StatusCreated"
    and "map pe_event_id (pending_events (run_tables c [(e3, p3), (e2, p2), (e1, p1)] empty_tables)) =
      [EventID e3, EventID e2]"
proof -
  have ids: "EventID e1 \<noteq> EventID e2" "EventID e2 \<noteq> EventID e1"
      "EventID e1 \<noteq> EventID e3" "EventID e3 \<noteq> EventID e1" "EventID e2 \<noteq> EventID e3" "EventID e3 \<noteq> EventID e2"
    using assms(1) by auto
  show "select_current_status oid (run_tables c [(e3, p3), (e2, p2), (e1, p1)] empty_tables) =
      Some StatusCreated"
    and "map pe_event_id (pending_events (run_tables c [(e3, p3), (e2, p2), (e1, p1)] empty_tables)) =
      [EventID e3, EventID e2]"
    using assms(2-) ids by (simp_all add: eval_tables Let_def pending_event_def)
qed

text \<open>
  C26: Replay is blocked by the row with the earliest time.  When the shipment of a new order
  carries an earlier time than its payment and both arrive before the creation, the replay
  after the creation stops at the shipment: the order stays created with both events pending,
  although the payment is an allowed next step.
\<close>

theorem replay_blocked_by_earliest:
  assumes "pg_session db c view committed in_tx" and "consistent (committed s)"
    and "slice_of oid (committed s) = empty_tables"
    and "distinct [EventID e1, EventID e2, EventID e3]"
    and "OrderID e1 = oid" and "OrderID e2 = oid" and "OrderID e3 = oid"
    and "Status e1 = StatusCreated" and "Status e2 = StatusPaid" and "Status e3 = StatusShipped"
    and "tstz c (Timestamp e3) < tstz c (Timestamp e2)"
    and "ids_owned [e3, e2, e1] (committed s)" and "process_all db [e3, e2, e1] s = Some s'"
  shows "select_current_status oid (committed s') = Some StatusCreated \<and>
    map pe_event_id (pending_of oid (committed s')) = [EventID e3, EventID e2] \<and>
    Allowed (EvaluateTransition StatusCreated (Status e2))"
proof -
  note run = slice_process_all [OF assms(1,2,12,13), of oid]
  have "pending_of oid t = pending_events (slice_of oid t)" for t by (simp add: slice_of_def)
  then show ?thesis
    using blocked_replay_tables [OF assms(4-11)] run assms(3,5-7,9)
      slice_select(2) [of oid "committed s'"]
    by (simp add: arrival_def EvaluateTransition_def)
qed

theorem replay_blocked_by_earliest_witness:
  "\<exists>s'. process_all (pgsim sim_codec) [demo_event ''3'' ''a'' StatusShipped 1000,
       demo_event ''2'' ''a'' StatusPaid 2000, demo_event ''1'' ''a'' StatusCreated 1000] demo_start = Some s' \<and>
     select_current_status ''a'' (sim_committed s') = Some StatusCreated \<and>
     map pe_event_id (pending_of ''a'' (sim_committed s')) = [''3'', ''2'']"
proof -
  let ?e1 = "demo_event ''1'' ''a'' StatusCreated 1000" and ?e2 = "demo_event ''2'' ''a'' StatusPaid 2000"
    and ?e3 = "demo_event ''3'' ''a'' StatusShipped 1000"
  obtain s' where s': "process_all (pgsim sim_codec) [?e3, ?e2, ?e1] demo_start = Some s'"
    by (rule demo_process_all [OF demo_start_ok(1), of "[?e3, ?e2, ?e1]"])
       (simp_all add: demo_event_arrival)
  have "ids_owned [?e3, ?e2, ?e1] (sim_committed demo_start)"
    by (auto simp: ids_owned_def demo_start_ok(2))
  from replay_blocked_by_earliest [OF demo_session demo_start_consistent
      _ _ _ _ _ _ _ _ _ this s', of "''a''"]
  show ?thesis using s' by (simp add: demo_start_ok(2) sim_codec_def)
qed

end
