(* ===== verification/Repository_Replay.thy ===== *)
theory Repository_Replay
  imports Repository_Orders
begin

text \<open>
  The replay of pending events: how much one call can replay, that it leaves no runnable event
  at the head of an order's queue, and that the loop of single-row queries is one pass over the
  pending rows sorted by time and id.
\<close>

section \<open>How much a call replays\<close>

lemma replay_count:
  assumes "current = status_of a"
  shows "\<exists>k. snd (replay_tables c oid current n t) = n + int k \<and>
    length (order_status_history (fst (replay_tables c oid current n t))) =
      length (order_status_history t) + k \<and> stage_rank a + k \<le> 3"
  using assms
proof (induction c oid current n t arbitrary: a rule: replay_tables.induct)
  case (1 c oid current n t)
  note unfold = replay_tables.simps [of c oid current n t]
  have stop: "\<exists>k. n = n + int k \<and> length (order_status_history t) =
      length (order_status_history t) + k \<and> stage_rank a + k \<le> 3"
    by (rule exI [of _ 0]) (cases a; simp)
  show ?case
  proof (cases "select_next_pending c oid t")
    case None
    with stop show ?thesis by (simp add: unfold)
  next
    case (Some row)
    let ?cl = "Classification (EvaluateTransition current (pe_status row))"
    note IH = "1.IH" [OF Some refl refl, unfolded pending_event_sel]
    have len: "length (order_status_history (replay_round c current (pending_event row) t)) =
        length (order_status_history t) + (if ?cl = ClassificationApplied then 1 else 0)"
      by (simp add: replay_round_def Let_def accept_def)
    consider (o) "?cl = ClassificationOutOfOrder" | (a) "?cl = ClassificationApplied"
      | (r) "?cl \<noteq> ClassificationOutOfOrder" "?cl \<noteq> ClassificationApplied" by blast
    then show ?thesis
    proof cases
      case o
      with stop Some show ?thesis by (simp add: unfold)
    next
      case a
      then obtain b where b: "pe_status row = status_of b" "stage_rank a < stage_rank b"
        using "1.prems" lifecycle_less by (fastforce simp: applied_iff less_stage_def)
      with IH(1) [of b] a obtain k where "snd (replay_tables c oid (pe_status row) (n + 1)
            (replay_round c current (pending_event row) t)) = n + 1 + int k"
          "length (order_status_history (fst (replay_tables c oid (pe_status row) (n + 1)
            (replay_round c current (pending_event row) t)))) =
           length (order_status_history (replay_round c current (pending_event row) t)) + k"
          "stage_rank b + k \<le> 3"
        by auto
      with a b(2) len Some show ?thesis
        by (intro exI [of _ "Suc k"]) (simp add: unfold)
    next
      case r
      then have "replay_tables c oid current n t =
          replay_tables c oid current n (replay_round c current (pending_event row) t)"
        using Some by (simp add: unfold)
      with IH(2) [of a] "1.prems" len r show ?thesis by simp
    qed
  qed
qed

lemma process_count:
  fixes c ev payload t
  defines "r \<equiv> snd (process_tables c ev payload t)"
  shows "0 \<le> res_ReplayedPending r \<and> res_ReplayedPending r \<le> 2 \<and>
    length (order_status_history (fst (process_tables c ev payload t))) =
      length (order_status_history t) + (if res_Applied r then 1 else 0) + nat (res_ReplayedPending r)"
proof (cases rule: process_tables_cases [of t ev c payload])
  case applied
  let ?from = "select_current_status (OrderID ev) t"
  let ?t = "accept c ev ?from (record_as c ev ClassificationApplied t)"
  from applied(2) obtain b where b: "Status ev = status_of b" "0 < stage_rank b"
    by (auto simp: applied_iff) (metis lifecycle_less less_stage_def gr_zeroI not_less_zero)
  obtain k where "snd (replay_tables c (OrderID ev) (Status ev) 0 ?t) = int k"
      "length (order_status_history (fst (replay_tables c (OrderID ev) (Status ev) 0 ?t))) =
        length (order_status_history ?t) + k" "stage_rank b + k \<le> 3"
    using replay_count [OF b(1), of c "OrderID ev" 0 ?t] by auto
  with applied(3) b(2) show ?thesis
    by (simp add: r_def case_prod_beta accept_def)
qed (simp_all add: r_def base_result_def zeroResult_def)

text \<open>
  C22: What a successful call reports is what it did.  At most two pending events are replayed,
  and the history grows by one row for the event itself if it is reported as applied and by
  one row per replayed event.
\<close>

theorem replay_is_bounded:
  assumes "pg_session db c view committed in_tx"
    and "ProcessEventTx db ev s = Some (s', Inr r)"
  shows "0 \<le> res_ReplayedPending r \<and> res_ReplayedPending r \<le> 2 \<and>
    length (order_status_history (committed s')) = length (order_status_history (committed s)) +
      (if res_Applied r then 1 else 0) + nat (res_ReplayedPending r)"
proof -
  obtain payload where "process_tables c ev payload (committed s) = (committed s', r)"
    by (rule pg_session.ok_run [OF assms])
  with process_count [of c ev payload "committed s"] show ?thesis by simp
qed

theorem replay_is_bounded_witness:
  "\<exists>s' r. ProcessEventTx (pgsim sim_codec) demo_created demo_start = Some (s', Inr r) \<and>
     res_ReplayedPending r \<le> 2"
proof -
  obtain s' r where "ProcessEventTx (pgsim sim_codec) demo_created demo_start = Some (s', Inr r)"
    by (rule demo_created_run [OF demo_start_ok(1)])
  with replay_is_bounded [OF demo_session this] show ?thesis by blast
qed

section \<open>Nothing runnable is left at the head\<close>

text \<open>The collation orders text totally; PostgreSQL breaks ties by bytes.\<close>

definition text_ordered :: "pg_codec \<Rightarrow> bool" where
  "text_ordered c \<longleftrightarrow>
     (\<forall>a b. text_le c a b \<or> text_le c b a) \<and>
     (\<forall>a b d. text_le c a b \<longrightarrow> text_le c b d \<longrightarrow> text_le c a d) \<and>
     (\<forall>a b. text_le c a b \<longrightarrow> text_le c b a \<longrightarrow> a = b)"

definition settled :: "pg_codec \<Rightarrow> tables \<Rightarrow> bool" where
  "settled c t \<longleftrightarrow>
     (\<forall>oid. pred_option (\<lambda>row. Classification
        (EvaluateTransition (current_of (select_current_status oid t)) (pe_status row)) =
          ClassificationOutOfOrder) (select_next_pending c oid t))"

lemma pending_before_order:
  assumes "text_ordered c"
  shows "pending_before c r r' \<or> pending_before c r' r"
    and "pending_before c r r' \<Longrightarrow> pending_before c r' r'' \<Longrightarrow> pending_before c r r''"
    and "pending_before c r r' \<Longrightarrow> pending_before c r' r \<Longrightarrow> pe_event_id r = pe_event_id r'"
proof -
  from assms have total: "text_le c a b \<or> text_le c b a"
    and trans: "text_le c a b \<Longrightarrow> text_le c b d \<Longrightarrow> text_le c a d"
    and antisym: "text_le c a b \<Longrightarrow> text_le c b a \<Longrightarrow> a = b" for a b d
    unfolding text_ordered_def by blast+
  show "pending_before c r r' \<or> pending_before c r' r"
    using total [of "pe_event_id r" "pe_event_id r'"] by (auto simp: pending_before_def)
  show "pending_before c r r' \<Longrightarrow> pending_before c r' r'' \<Longrightarrow> pending_before c r r''"
    using trans [of "pe_event_id r" "pe_event_id r'" "pe_event_id r''"]
    by (auto simp: pending_before_def)
  show "pending_before c r r' \<Longrightarrow> pending_before c r' r \<Longrightarrow> pe_event_id r = pe_event_id r'"
    using antisym [of "pe_event_id r" "pe_event_id r'"] by (auto simp: pending_before_def)
qed

lemma least_by_snoc:
  assumes total: "\<And>a b. le a b \<or> le b a" and trans: "\<And>a b d. le a b \<Longrightarrow> le b d \<Longrightarrow> le a d"
  shows "least_by le (xs @ [y]) =
    (case least_by le xs of None \<Rightarrow> Some y | Some x \<Rightarrow> Some (if le x y then x else y))"
proof (induction xs)
  case (Cons x xs)
  show ?case
  proof (cases "least_by le xs")
    case (Some w)
    with Cons trans [of x w y] trans [of x y w] total [of w y] show ?thesis by auto
  qed (use Cons in simp)
qed simp

lemma select_next_pending_defer:
  assumes "text_ordered c" and "OrderID ev = oid"
  shows "\<exists>row. select_next_pending c oid (defer_event c ev reason payload t) = Some row \<and>
    (select_next_pending c oid t = Some row \<or> pe_status row = Status ev)"
  using least_by_snoc [of "pending_before c", OF pending_before_order(1,2) [OF assms(1)]] assms(2)
  by (auto simp: select_next_pending_def defer_event_def split: option.split)

lemma settled_replay_tables:
  assumes "select_current_status oid t = Some current"
  shows "pred_option (\<lambda>row. Classification (EvaluateTransition
      (current_of (select_current_status oid (fst (replay_tables c oid current n t)))) (pe_status row)) =
        ClassificationOutOfOrder) (select_next_pending c oid (fst (replay_tables c oid current n t)))"
  using assms
proof (induction c oid current n t rule: replay_tables.induct)
  case (1 c oid current n t)
  show ?case
  proof (cases "select_next_pending c oid t")
    case None
    then show ?thesis by (simp add: replay_tables.simps [of c oid current n t])
  next
    case (Some row)
    then have "pe_order_id row = oid" by (auto dest: select_next_pending_SomeD)
    with 1 Some status_replay_round [of row t current oid c] show ?thesis
      by (simp add: replay_tables.simps [of c oid current n t] Let_def current_of_def)
  qed
qed

lemma settled_process_tables:
  assumes "consistent t" and "settled c t" and "isKnown (Status ev)" and "text_ordered c"
  shows "settled c (fst (process_tables c ev payload t))"
  unfolding settled_def
proof
  fix oid
  let ?t = "fst (process_tables c ev payload t)"
  let ?quiet = "\<lambda>u. pred_option (\<lambda>row. Classification
      (EvaluateTransition (current_of (select_current_status oid u)) (pe_status row)) =
        ClassificationOutOfOrder) (select_next_pending c oid u)"
  have quiet: "?quiet t" using assms(2) by (simp add: settled_def)
  show "?quiet ?t"
  proof (cases "OrderID ev = oid")
    case False
    from slice_process_other [OF assms(1,3) False, of c payload]
    have "select_next_pending c oid ?t = select_next_pending c oid t"
      "select_current_status oid ?t = select_current_status oid t"
      by (metis slice_select)+
    with quiet show ?thesis by simp
  next
    case True
    show ?thesis
    proof (cases rule: process_tables_cases [of t ev c payload])
      case applied
      let ?u = "accept c ev (select_current_status (OrderID ev) t) (record_as c ev ClassificationApplied t)"
      have "select_current_status oid ?u = Some (Status ev)" using True by simp
      from settled_replay_tables [OF this] True applied(3) show ?thesis
        by (simp add: case_prod_beta)
    next
      case out_of_order
      let ?u = "record_as c ev ClassificationOutOfOrder t"
      obtain row where "select_next_pending c oid ?t = Some row"
          "select_next_pending c oid ?u = Some row \<or> pe_status row = Status ev"
        using select_next_pending_defer [OF assms(4) True, of _ payload ?u] out_of_order(3) by auto
      moreover have "select_next_pending c oid ?u = select_next_pending c oid t"
        by (simp add: select_next_pending_def)
      ultimately show ?thesis using quiet True out_of_order(2,3) by auto
    qed (use quiet in \<open>simp_all add: select_next_pending_def\<close>)
  qed
qed

text \<open>
  C21: After every call, successful or not, no runnable event waits at the head of an order's
  queue: the earliest pending event of each order still lacks a prerequisite.
\<close>

theorem pending_head_is_waiting:
  assumes "pg_session db c view committed in_tx" and "text_ordered c"
    and "consistent (committed s)" and "settled c (committed s)"
    and "ProcessEventTx db ev s = Some (s', r)"
  shows "settled c (committed s')"
proof -
  have *: "settled c (fst (process_tables c ev payload (committed s)))"
    if "validateEvent ev = Inr payload" for payload
    using assms(3,4) validateEvent_known [OF that] assms(2) by (rule settled_process_tables)
  show ?thesis
    by (cases rule: pg_session.ProcessEventTx_cases [OF assms(1), of ev s])
       (use assms(4,5) * in \<open>auto simp: process_tables_def\<close>)
qed

lemma settled_empty: "settled c empty_tables"
  by (simp add: settled_def select_next_pending_def empty_tables_def)

lemma text_ordered_sim: "text_ordered sim_codec"
  by (auto simp: text_ordered_def sim_codec_def)

theorem pending_head_is_waiting_witness:
  "\<exists>s' r. ProcessEventTx (pgsim sim_codec) demo_created demo_start = Some (s', r) \<and>
     settled sim_codec (sim_committed s')"
proof -
  obtain s' r where "ProcessEventTx (pgsim sim_codec) demo_created demo_start = Some (s', Inr r)"
    by (rule demo_created_run [OF demo_start_ok(1)])
  with pending_head_is_waiting [OF demo_session text_ordered_sim demo_start_consistent _ this]
  show ?thesis by (auto simp: demo_start_ok(2) settled_empty)
qed

section \<open>The loop as one sorted pass\<close>

fun insert_by :: "('a \<Rightarrow> 'a \<Rightarrow> bool) \<Rightarrow> 'a \<Rightarrow> 'a list \<Rightarrow> 'a list" where
  "insert_by le x [] = [x]"
| "insert_by le x (y # ys) = (if le x y then x # y # ys else y # insert_by le x ys)"

definition sort_by :: "('a \<Rightarrow> 'a \<Rightarrow> bool) \<Rightarrow> 'a list \<Rightarrow> 'a list" where
  "sort_by le xs = foldr (insert_by le) xs []"

text \<open>The pass: rows in the given order, up to the first that has to wait.\<close>

fun replay_pass :: "pg_codec \<Rightarrow> Status \<Rightarrow> int \<Rightarrow> pending_row list \<Rightarrow> tables \<Rightarrow> tables \<times> int" where
  "replay_pass c current n [] t = (t, n)"
| "replay_pass c current n (row # rows) t =
     (let class = Classification (EvaluateTransition current (pe_status row));
          t' = replay_round c current (pending_event row) t
      in if class = ClassificationOutOfOrder then (t, n)
         else if class = ClassificationApplied then replay_pass c (pe_status row) (n + 1) rows t'
         else replay_pass c current n rows t')"

lemma set_insert_by [simp]: "set (insert_by le x xs) = insert x (set xs)"
  by (induction xs) auto

lemma set_sort_by [simp]: "set (sort_by le xs) = set xs"
  unfolding sort_by_def by (induction xs) simp_all

lemma distinct_insert_by [simp]:
  "distinct (map f (insert_by le x xs)) \<longleftrightarrow> f x \<notin> f ` set xs \<and> distinct (map f xs)"
  by (induction xs) auto

lemma distinct_sort_by [simp]: "distinct (map f (sort_by le xs)) \<longleftrightarrow> distinct (map f xs)"
proof (induction xs)
  case (Cons x xs)
  then show ?case using set_sort_by [of le xs] by (simp add: sort_by_def)
qed (simp add: sort_by_def)

text \<open>The head of the sorted rows is the row the query returns.\<close>

lemma hd_insert_by:
  "insert_by le x ys = (case ys of [] \<Rightarrow> [x] | y # zs \<Rightarrow> if le x y then x # ys else y # insert_by le x zs)"
  by (cases ys) simp_all

lemma least_by_sort_by:
  "least_by le xs = (case sort_by le xs of [] \<Rightarrow> None | x # _ \<Rightarrow> Some x)"
  unfolding sort_by_def
  by (induction xs) (auto simp: hd_insert_by split: list.split option.split)

text \<open>Dropping rows commutes with sorting, for rows that are totally ordered.\<close>

lemma filter_insert_by:
  assumes "sorted_wrt le ys" and trans: "\<And>a b d. le a b \<Longrightarrow> le b d \<Longrightarrow> le a d"
  shows "filter P (insert_by le x ys) = (if P x then insert_by le x (filter P ys) else filter P ys)"
  using assms(1)
proof (induction ys)
  case (Cons y ys)
  have "insert_by le x (filter P ys) = x # filter P ys" if "le x y"
  proof (cases "filter P ys")
    case zs: (Cons z zs)
    then have "z \<in> set (filter P ys)" by simp
    with Cons.prems have "le y z" by simp
    with that trans [of x y z] zs show ?thesis by simp
  qed simp
  with Cons show ?case by auto
qed simp

lemma sorted_insert_by:
  assumes "sorted_wrt le ys" and total: "\<And>a b. le a b \<or> le b a"
    and trans: "\<And>a b d. le a b \<Longrightarrow> le b d \<Longrightarrow> le a d"
  shows "sorted_wrt le (insert_by le x ys)"
  using assms(1)
proof (induction ys)
  case (Cons y ys)
  with total [of x y] trans [of x y] show ?case by auto
qed simp

lemma sort_by_facts:
  assumes total: "\<And>a b. le a b \<or> le b a" and trans: "\<And>a b d. le a b \<Longrightarrow> le b d \<Longrightarrow> le a d"
  shows "sorted_wrt le (sort_by le xs)"
    and "filter P (sort_by le xs) = sort_by le (filter P xs)"
proof -
  show sorted: "sorted_wrt le (sort_by le xs)" for xs
    unfolding sort_by_def by (induction xs) (simp_all add: sorted_insert_by [of le, OF _ total trans])
  show "filter P (sort_by le xs) = sort_by le (filter P xs)"
    using sorted by (induction xs) (simp_all add: sort_by_def filter_insert_by [of le, OF _ trans])
qed

lemma replay_tables_pass:
  assumes "text_ordered c" and "distinct (map pe_event_id (pending_events t))"
  shows "replay_tables c oid current n t =
    replay_pass c current n (sort_by (pending_before c) (pending_of oid t)) t"
  using assms
proof (induction c oid current n t rule: replay_tables.induct)
  case (1 c oid current n t)
  let ?le = "pending_before c"
  note order = pending_before_order(1,2) [OF "1.prems"(1)]
  note unfold = replay_tables.simps [of c oid current n t]
  have sel: "select_next_pending c oid t =
      (case sort_by ?le (pending_of oid t) of [] \<Rightarrow> None | row # _ \<Rightarrow> Some row)"
    by (simp add: select_next_pending_def pending_of_def [symmetric] least_by_sort_by)
  show ?case
  proof (cases "sort_by ?le (pending_of oid t)")
    case Nil
    with sel show ?thesis by (simp add: unfold)
  next
    case (Cons row rows)
    let ?t = "replay_round c current (pending_event row) t"
    have next_row: "select_next_pending c oid t = Some row" using sel Cons by simp
    have "distinct (map pe_event_id (row # rows))"
      using "1.prems"(2) by (simp add: Cons [symmetric] pending_of_def distinct_map_filter)
    then have "filter (\<lambda>r. pe_event_id r \<noteq> pe_event_id row) (row # rows) = rows"
      by (simp add: filter_id_conv image_iff) metis
    moreover have "pending_of oid ?t =
        filter (\<lambda>r. pe_event_id r \<noteq> pe_event_id row) (pending_of oid t)"
      by (simp add: pending_of_def pending_replay_round conj_commute)
    ultimately have rest: "sort_by ?le (pending_of oid ?t) = rows"
      by (simp only: sort_by_facts(2) [of ?le, OF order, symmetric] Cons)
    have "distinct (map pe_event_id (pending_events ?t))"
      using "1.prems"(2) by (simp add: pending_replay_round distinct_map_filter)
    with "1.IH" [OF next_row refl refl] "1.prems"(1) rest Cons next_row show ?thesis
      by (simp add: unfold Let_def)
  qed
qed

text \<open>
  C13: The replay loop, which queries one row at a time, is one pass over the order's pending
  rows sorted by time and id that stops at the first row whose prerequisite is missing: same
  tables, same count.
\<close>

theorem replayPending_is_sorted_pass:
  assumes "pg_session db c view committed in_tx" and "text_ordered c"
    and "in_tx s" and "consistent (view s)"
    and "replayPending db oid current n s = Some (s', Inr k)"
  shows "(view s', k) =
    replay_pass c current n (sort_by (pending_before c) (pending_of oid (view s))) (view s)"
proof -
  have "(view s', k) = replay_tables c oid current n (view s)"
    using pg_session.replayPending_reaches [OF assms(1,3), of oid current n] assms(5)
    by (simp add: pg_session.reaches_def [OF assms(1)])
  moreover have "distinct (map pe_event_id (pending_events (view s)))"
    using assms(4) by (simp add: consistent_def accounted_def)
  ultimately show ?thesis using replay_tables_pass [OF assms(2)] by simp
qed

text \<open>A created order whose payment has been waiting.\<close>

definition demo_waiting :: tables where
  "demo_waiting = fst (process_tables sim_codec (demo_event ''e2'' ''o1'' StatusPaid 6000) ''{}'' empty_tables)"

definition demo_replay :: sim where
  "demo_replay = \<lparr>sim_committed = empty_tables,
     sim_tx = Some (accept sim_codec demo_created None
       (record_as sim_codec demo_created ClassificationApplied demo_waiting)), sim_faults = []\<rparr>"

lemma demo_replay_ready:
  "sim_available demo_replay" "sim_in_tx demo_replay" "ready sim_codec ''o1'' StatusCreated (sim_view demo_replay)"
proof -
  have "validateEvent (demo_event ''e2'' ''o1'' StatusPaid 6000) = Inr ''{}''"
    by (simp add: validate_demo_event)
  then have w: "consistent demo_waiting" unfolding demo_waiting_def
    by (intro consistent_process_tables consistent_empty) simp
  have waiting: "processed_events demo_waiting ''e1'' = None"
      "select_current_status ''o1'' demo_waiting = None"
      "pending_events demo_waiting = [\<lparr>pe_event_id = ''e2'', pe_order_id = ''o1'', pe_status = StatusPaid,
        pe_event_timestamp = 6000, pe_reason = ''CREATED event has not been applied'', pe_payload = ''{}''\<rparr>]"
    by (simp_all add: demo_waiting_def process_tables_def route_tables_def Let_def empty_tables_def
        EvaluateTransition_def current_of_def select_current_status_def register_def settle_def
        defer_event_def sim_codec_def)
  from consistent_accept_new [OF w, of demo_created sim_codec] waiting
  have "consistent (sim_view demo_replay)"
    by (simp add: demo_replay_def sim_view_def demo_created_def EvaluateTransition_def current_of_def)
  moreover have "storable sim_codec (sim_view demo_replay)"
    by (simp add: demo_replay_def sim_view_def storable_def waiting(3) sim_codec_def sublist_Cons_right)
  ultimately show "ready sim_codec ''o1'' StatusCreated (sim_view demo_replay)"
    by (simp add: ready_def) (simp add: demo_replay_def sim_view_def demo_created_def sim_codec_def)
qed (simp_all add: demo_replay_def sim_available_def sim_in_tx_def)

theorem replayPending_is_sorted_pass_witness:
  "\<exists>s' k. replayPending (pgsim sim_codec) ''o1'' StatusCreated 0 demo_replay = Some (s', Inr k) \<and>
     (sim_view s', k) = replay_pass sim_codec StatusCreated 0
       (sort_by (pending_before sim_codec) (pending_of ''o1'' (sim_view demo_replay))) (sim_view demo_replay)"
proof -
  obtain s' k where
    "replayPending (pgsim sim_codec) ''o1'' StatusCreated 0 demo_replay = Some (s', Inr k)"
    using sim_db.replayPending_succeeds [OF demo_replay_ready] by blast
  with replayPending_is_sorted_pass [OF demo_session text_ordered_sim demo_replay_ready(2) _ this]
    demo_replay_ready(3) show ?thesis by (auto simp: ready_def)
qed

end
