(* ===== verification/Repository_Errors.thy ===== *)
theory Repository_Errors
  imports Repository_Properties
begin

text \<open>
  Events the repository refuses: what \<open>validateEvent\<close> lets through, and valid events that
  the database cannot store.
\<close>

section \<open>Validation\<close>

text \<open>
  \<open>validateEvent\<close> accepts an event exactly if it has an event id, an order id, a
  non-zero time and one of the four statuses, and its payload is a JSON object (an absent
  payload stands for the empty object); it returns the payload to store.
\<close>

lemma validateEvent_accepts_iff:
  "validateEvent ev = Inr payload \<longleftrightarrow>
     EventID ev \<noteq> '''' \<and> OrderID ev \<noteq> '''' \<and> Timestamp ev \<noteq> 0 \<and> isKnown (Status ev) \<and>
     payload = (if Payload ev = '''' then ''{}'' else Payload ev) \<and>
     unmarshal_object payload = Inr True"
  by (auto simp: validateEvent_def IsZero_def isPersistableStatus_def isKnown_def Let_def
      split: sum.splits)

text \<open>
  An event with an unknown status is refused before any transaction starts: the call returns
  an error and does not touch the database, so the event is not recorded, not even as a dead
  letter, on any database.
\<close>

lemma unknown_status_is_refused:
  assumes "\<not> isKnown (Status ev)"
  shows "\<exists>err. ProcessEventTx db ev s = Some (s, Inl (ErrValidate err))"
proof -
  have "\<exists>err. validateEvent ev = Inl err"
    using assms by (auto simp: validateEvent_def isPersistableStatus_def isKnown_def)
  then show ?thesis by (auto simp: ProcessEventTx_def)
qed

section \<open>Valid events that cannot be stored\<close>

context pg_session
begin

definition refused :: "('s, 'e, 'a) go \<Rightarrow> (tables \<Rightarrow> bool) \<Rightarrow> bool" where
  "refused m P \<longleftrightarrow> (\<forall>s s' a. in_tx s \<longrightarrow> P (view s) \<longrightarrow> m s \<noteq> Some (s', Inr a))"

lemma refused_execG: "refused (execG db st wrap) (\<lambda>t. \<not> sql_constraint codec st t)"
  by (auto simp: refused_def execG_def dest: exec_ok split: prod.splits sum.splits)

lemma refused_first: "refused m P \<Longrightarrow> refused (bindG m k) P"
  by (fastforce simp: refused_def elim: bindG_InrE)

lemma refused_then:
  assumes "implements m f" and "\<And>a. refused (k a) (Q a)"
    and "\<And>t. P t \<Longrightarrow> Q (snd (f t)) (fst (f t))"
  shows "refused (bindG m k) P"
  unfolding refused_def
proof (intro allI impI notI)
  fix s s' b
  assume s: "in_tx s" "P (view s)" "bindG m k s = Some (s', Inr b)"
  from s(3) obtain s1 a where run: "m s = Some (s1, Inr a)" "k a s1 = Some (s', Inr b)"
    by (rule bindG_InrE)
  with assms(1) s(1) have "in_tx s1" "f (view s) = (view s1, a)"
    by (auto elim!: implementsE)
  with assms(2) [of a] assms(3) [OF s(2)] run(2) show False by (simp add: refused_def)
qed

lemma refused_routeEvent:
  assumes "\<not> jsonb_ok codec payload"
    and "Classification transition \<in> {ClassificationOutOfOrder, ClassificationInvalidTransition}"
  shows "refused (routeEvent db ev payload current exists transition result) (\<lambda>t. True)"
proof -
  have stmts: "refused (insertPendingEvent db ev (Reason transition) payload) (\<lambda>t. True)"
    "refused (insertDeadLetterEvent db ev (Reason transition) payload) (\<lambda>t. True)"
    using assms(1) refused_execG
    by (auto simp: insertPendingEvent_def insertDeadLetterEvent_def refused_def elim!: bindG_InrE)
  show ?thesis
    using assms(2) refused_first [OF stmts(1)] refused_first [OF stmts(2)]
    by (auto simp: routeEvent_def Let_def)
qed

lemma refused_handleEvent:
  assumes "\<not> jsonb_ok codec payload"
  shows "refused (handleEvent db ev payload)
    (\<lambda>t. processed_events t (EventID ev) = None \<and>
       Classification (EvaluateTransition (current_of (select_current_status (OrderID ev) t)) (Status ev)) \<in>
         {ClassificationOutOfOrder, ClassificationInvalidTransition})"
proof -
  let ?dest = "{ClassificationOutOfOrder, ClassificationInvalidTransition}"
  have route: "refused (case loaded of (current, exists) \<Rightarrow>
        let transition = EvaluateTransition current (Status ev); result = f transition
        in routeEvent db ev payload current exists transition result)
      (\<lambda>t. Classification (EvaluateTransition (fst loaded) (Status ev)) \<in> ?dest)" for loaded f
    using refused_routeEvent [OF assms, of "EvaluateTransition (fst loaded) (Status ev)" ev]
    by (cases loaded) (auto simp: refused_def Let_def)
  have load: "refused (if \<not> inserted then okG dup else bindG (loadCurrentStatus db (OrderID ev))
        (\<lambda>(current, exists). let transition = EvaluateTransition current (Status ev);
            result = f transition
          in routeEvent db ev payload current exists transition result))
      (\<lambda>t. inserted \<and> Classification (EvaluateTransition
        (current_of (select_current_status (OrderID ev) t)) (Status ev)) \<in> ?dest)" for inserted dup f
  proof (cases inserted)
    case True
    then show ?thesis
      using refused_then [OF implements_loadCurrentStatus [of "OrderID ev"] route [of f],
          where P = "\<lambda>t. Classification (EvaluateTransition
            (current_of (select_current_status (OrderID ev) t)) (Status ev)) \<in> ?dest"]
      by (simp add: current_of_def split: option.splits)
  qed (simp add: refused_def)
  show ?thesis
    unfolding handleEvent_def
    by (rule refused_then [OF implements_execG refused_then [OF implements_insertProcessedEvent load,
          where P = "\<lambda>t. processed_events t (EventID ev) = None \<and> Classification (EvaluateTransition
            (current_of (select_current_status (OrderID ev) t)) (Status ev)) \<in> ?dest"]]) auto
qed

end


text \<open>The JSON object with one member whose value is the escape of U+0000.\<close>

definition nul_payload :: string where
  "nul_payload = ''{'' @ [CHR 0x22] @ ''a'' @ [CHR 0x22] @ '':'' @ [CHR 0x22] @
     [CHR 0x5C, CHR ''u'', CHR ''0'', CHR ''0'', CHR ''0'', CHR ''0''] @ [CHR 0x22] @ ''}''"

definition nul_event :: OrderEvent where
  "nul_event = (demo_event ''e1'' ''o1'' StatusPaid 5000)\<lparr>Payload := nul_payload\<rparr>"

lemma validate_nul_event: "validateEvent nul_event = Inr nul_payload"
  by code_simp


end
