(* ===== verification/Monitoring.thy ===== *)
theory Monitoring
  imports Repository "HOL-Library.Multiset"
begin

text \<open>
  \<open>internal/monitoring/metrics.go\<close>: the collector's atomic counters as 64-bit words, and
  the statistics handler over an abstract queue.  Each method of the collector performs its
  atomic additions one after the other; the state between two of them is visible to a
  concurrent \<open>Snapshot\<close>, so a method is also given as the list of its additions.
\<close>

section \<open>The collector\<close>

record Collector =
  startedAt :: gotime
  processed :: u64
  applied :: u64
  duplicatesSkipped :: u64
  duplicateStatus :: u64
  outOfOrder :: u64
  invalidTransitions :: u64
  deadLetters :: u64
  failures :: u64
  simulatedFailures :: u64
  recoveredMessages :: u64
  pendingReplayed :: u64

definition newCollectorAt :: "gotime \<Rightarrow> Collector" where
  "newCollectorAt now = \<lparr>startedAt = now, processed = 0, applied = 0, duplicatesSkipped = 0,
     duplicateStatus = 0, outOfOrder = 0, invalidTransitions = 0, deadLetters = 0, failures = 0,
     simulatedFailures = 0, recoveredMessages = 0, pendingReplayed = 0\<rparr>"

text \<open>The counters and an atomic addition to one of them.\<close>

datatype counter = Processed | Applied | DuplicatesSkipped | DuplicateStatus | OutOfOrder
  | InvalidTransitions | DeadLetters | Failures | SimulatedFailures | RecoveredMessages
  | PendingReplayed

fun addCounter :: "counter \<Rightarrow> u64 \<Rightarrow> Collector \<Rightarrow> Collector" where
  "addCounter Processed d c = c\<lparr>processed := processed c + d\<rparr>"
| "addCounter Applied d c = c\<lparr>applied := applied c + d\<rparr>"
| "addCounter DuplicatesSkipped d c = c\<lparr>duplicatesSkipped := duplicatesSkipped c + d\<rparr>"
| "addCounter DuplicateStatus d c = c\<lparr>duplicateStatus := duplicateStatus c + d\<rparr>"
| "addCounter OutOfOrder d c = c\<lparr>outOfOrder := outOfOrder c + d\<rparr>"
| "addCounter InvalidTransitions d c = c\<lparr>invalidTransitions := invalidTransitions c + d\<rparr>"
| "addCounter DeadLetters d c = c\<lparr>deadLetters := deadLetters c + d\<rparr>"
| "addCounter Failures d c = c\<lparr>failures := failures c + d\<rparr>"
| "addCounter SimulatedFailures d c = c\<lparr>simulatedFailures := simulatedFailures c + d\<rparr>"
| "addCounter RecoveredMessages d c = c\<lparr>recoveredMessages := recoveredMessages c + d\<rparr>"
| "addCounter PendingReplayed d c = c\<lparr>pendingReplayed := pendingReplayed c + d\<rparr>"

text \<open>
  \<open>RecordResult\<close> as its additions: the replayed events first, then the counters of the
  classification; a classification it does not know adds nothing.
\<close>

definition resultAdditions :: "ProcessResult \<Rightarrow> (counter \<times> u64) list" where
  "resultAdditions result =
     (if res_ReplayedPending result > 0
      then [(PendingReplayed, word_of_int (res_ReplayedPending result))] else []) @
     (let class = res_Classification result in
      if class = ClassificationApplied then [(Processed, 1), (Applied, 1)]
      else if class = ClassificationDuplicateEvent then [(Processed, 1), (DuplicatesSkipped, 1)]
      else if class = ClassificationDuplicateStatus then [(Processed, 1), (DuplicateStatus, 1)]
      else if class = ClassificationOutOfOrder then [(Processed, 1), (OutOfOrder, 1)]
      else if class = ClassificationInvalidTransition then
        [(Processed, 1), (InvalidTransitions, 1)] @
        (if res_DeadLetter result then [(DeadLetters, 1)] else [])
      else [])"

definition addAll :: "(counter \<times> u64) list \<Rightarrow> Collector \<Rightarrow> Collector" where
  "addAll adds c = fold (\<lambda>(k, d). addCounter k d) adds c"

definition RecordResult :: "ProcessResult \<Rightarrow> Collector \<Rightarrow> Collector" where
  "RecordResult result c = addAll (resultAdditions result) c"

definition RecordFailure :: "Collector \<Rightarrow> Collector" where
  "RecordFailure c = addCounter Failures 1 c"

definition RecordSimulatedFailure :: "Collector \<Rightarrow> Collector" where
  "RecordSimulatedFailure c = addCounter SimulatedFailures 1 c"

definition RecordRecovered :: "Collector \<Rightarrow> Collector" where
  "RecordRecovered c = addCounter RecoveredMessages 1 c"

section \<open>Facts\<close>

text \<open>The counter of a collector, and the classes whose counts add up to \<open>processed\<close>.\<close>

fun counterOf :: "counter \<Rightarrow> Collector \<Rightarrow> u64" where
  "counterOf Processed c = processed c"
| "counterOf Applied c = applied c"
| "counterOf DuplicatesSkipped c = duplicatesSkipped c"
| "counterOf DuplicateStatus c = duplicateStatus c"
| "counterOf OutOfOrder c = outOfOrder c"
| "counterOf InvalidTransitions c = invalidTransitions c"
| "counterOf DeadLetters c = deadLetters c"
| "counterOf Failures c = failures c"
| "counterOf SimulatedFailures c = simulatedFailures c"
| "counterOf RecoveredMessages c = recoveredMessages c"
| "counterOf PendingReplayed c = pendingReplayed c"

lemma counterOf_addCounter:
  "counterOf k (addCounter k' d c) = (if k = k' then counterOf k c + d else counterOf k c)"
  by (cases k; cases k') simp_all

definition total :: "counter \<Rightarrow> (counter \<times> u64) list \<Rightarrow> u64" where
  "total k adds = (\<Sum>(k', d) \<leftarrow> adds. if k' = k then d else 0)"

text \<open>Additions commute: a counter holds the sum of what was added to it, in whatever order.\<close>

lemma counterOf_addAll: "counterOf k (addAll adds c) = counterOf k c + total k adds"
proof (induction adds arbitrary: c)
  case (Cons a adds)
  then show ?case
    by (cases a) (simp add: addAll_def total_def counterOf_addCounter)
qed (simp add: addAll_def total_def)

section \<open>Snapshots\<close>

text \<open>
  The two \<open>float64\<close> fields are values of a type \<open>'f\<close> with the operations the code uses:
  zero, the comparison, \<open>Duration.Seconds\<close>, the conversion of a counter and the division.
\<close>

record 'f float64_ops =
  f_zero :: 'f
  f_less :: "'f \<Rightarrow> 'f \<Rightarrow> bool"
  f_seconds :: "int \<Rightarrow> 'f"
  f_of_u64 :: "u64 \<Rightarrow> 'f"
  f_div :: "'f \<Rightarrow> 'f \<Rightarrow> 'f"

record 'f Snapshot =
  sn_StartedAt :: gotime
  sn_UptimeSeconds :: 'f
  sn_Processed :: u64
  sn_Applied :: u64
  sn_DuplicatesSkipped :: u64
  sn_DuplicateStatus :: u64
  sn_OutOfOrder :: u64
  sn_InvalidTransitions :: u64
  sn_DeadLetters :: u64
  sn_Failures :: u64
  sn_SimulatedFailures :: u64
  sn_RecoveredMessages :: u64
  sn_PendingReplayed :: u64
  sn_ThroughputPerSecond :: 'f

text \<open>\<open>Time.Sub\<close>: the difference in nanoseconds, saturated to the range of a \<open>Duration\<close>.\<close>

definition timeSub :: "gotime \<Rightarrow> gotime \<Rightarrow> int" where
  "timeSub a b = max (- (2 ^ 63)) (min (2 ^ 63 - 1) (a - b))"

definition snapshotAt :: "'f float64_ops \<Rightarrow> gotime \<Rightarrow> Collector \<Rightarrow> 'f Snapshot" where
  "snapshotAt F now c =
     (let sec = f_seconds F (timeSub now (startedAt c));
          uptime = (if f_less F sec (f_zero F) then f_zero F else sec);
          throughput = (if f_less F (f_zero F) uptime
            then f_div F (f_of_u64 F (processed c)) uptime else f_zero F)
      in \<lparr>sn_StartedAt = startedAt c, sn_UptimeSeconds = uptime, sn_Processed = processed c,
          sn_Applied = applied c, sn_DuplicatesSkipped = duplicatesSkipped c,
          sn_DuplicateStatus = duplicateStatus c, sn_OutOfOrder = outOfOrder c,
          sn_InvalidTransitions = invalidTransitions c, sn_DeadLetters = deadLetters c,
          sn_Failures = failures c, sn_SimulatedFailures = simulatedFailures c,
          sn_RecoveredMessages = recoveredMessages c, sn_PendingReplayed = pendingReplayed c,
          sn_ThroughputPerSecond = throughput\<rparr>)"

section \<open>GET /stats\<close>

record 'f StatsResponse =
  sr_Snapshot :: "'f Snapshot"
  sr_QueueDepth :: int
  sr_StreamLength :: int
  sr_PendingDepth :: int
  sr_WorkerCount :: int
  sr_QueueError :: string

text \<open>The interface \<open>QueueDepthProvider\<close>; an error is its message.\<close>

record 's QueueDepthProvider =
  qd_QueueDepth :: "'s \<Rightarrow> 's \<times> (string + int)"
  qd_StreamLength :: "'s \<Rightarrow> 's \<times> (string + int)"
  qd_PendingCount :: "'s \<Rightarrow> 's \<times> (string + int)"

datatype 'f http_response =
    MethodNotAllowed string
  | StatsJSON "'f StatsResponse"

fun joinStrings :: "string \<Rightarrow> string list \<Rightarrow> string" where
  "joinStrings sep [] = ''''"
| "joinStrings sep [x] = x"
| "joinStrings sep (x # y # zs) = x @ sep @ joinStrings sep (y # zs)"

text \<open>One of the three queries: the value if it succeeded, else zero and a labelled message.\<close>

definition depthOrError :: "string \<Rightarrow> string + int \<Rightarrow> int \<times> string list" where
  "depthOrError label r =
     (case r of Inl err \<Rightarrow> (0, [label @ '': '' @ err]) | Inr depth \<Rightarrow> (depth, []))"

definition statsHandler ::
  "'s QueueDepthProvider \<Rightarrow> int \<Rightarrow> string \<Rightarrow> 'f Snapshot \<Rightarrow> 's \<Rightarrow> 's \<times> 'f http_response" where
  "statsHandler queue workerCount meth snapshot s =
     (if meth \<noteq> ''GET'' then (s, MethodNotAllowed ''GET'')
      else
        (let (s1, r1) = qd_QueueDepth queue s;
             (queueDepth, e1) = depthOrError ''queue_depth'' r1;
             (s2, r2) = qd_StreamLength queue s1;
             (streamLength, e2) = depthOrError ''stream_length'' r2;
             (s3, r3) = qd_PendingCount queue s2;
             (pendingDepth, e3) = depthOrError ''pending_depth'' r3
         in (s3, StatsJSON \<lparr>sr_Snapshot = snapshot, sr_QueueDepth = queueDepth,
              sr_StreamLength = streamLength, sr_PendingDepth = pendingDepth,
              sr_WorkerCount = workerCount,
              sr_QueueError = joinStrings ''; '' (e1 @ e2 @ e3)\<rparr>)))"

section \<open>What the counters show\<close>

text \<open>A result of a committed transaction, as the repository builds them.\<close>

definition outcome_classes :: "string list" where
  "outcome_classes = [ClassificationApplied, ClassificationDuplicateEvent,
     ClassificationDuplicateStatus, ClassificationOutOfOrder, ClassificationInvalidTransition]"

definition well_formed_result :: "ProcessResult \<Rightarrow> bool" where
  "well_formed_result r \<longleftrightarrow>
     res_Classification r \<in> set outcome_classes \<and>
     (res_DeadLetter r \<longleftrightarrow> res_Classification r = ClassificationInvalidTransition) \<and>
     0 \<le> res_ReplayedPending r \<and> res_ReplayedPending r \<le> 2"

definition class_counter :: "string \<Rightarrow> counter" where
  "class_counter cl =
     (if cl = ClassificationApplied then Applied
      else if cl = ClassificationDuplicateEvent then DuplicatesSkipped
      else if cl = ClassificationDuplicateStatus then DuplicateStatus
      else if cl = ClassificationOutOfOrder then OutOfOrder
      else InvalidTransitions)"

lemma duplicate_event_distinct [simp]:
  "ClassificationDuplicateEvent \<noteq> ClassificationApplied"
  "ClassificationDuplicateEvent \<noteq> ClassificationDuplicateStatus"
  "ClassificationDuplicateEvent \<noteq> ClassificationOutOfOrder"
  "ClassificationDuplicateEvent \<noteq> ClassificationInvalidTransition"
  "ClassificationApplied \<noteq> ClassificationDuplicateEvent"
  "ClassificationDuplicateStatus \<noteq> ClassificationDuplicateEvent"
  "ClassificationOutOfOrder \<noteq> ClassificationDuplicateEvent"
  "ClassificationInvalidTransition \<noteq> ClassificationDuplicateEvent"
  by (simp_all add: ClassificationDuplicateEvent_def classification_defs)

lemma class_counter_simps [simp]:
  "class_counter ClassificationApplied = Applied"
  "class_counter ClassificationDuplicateEvent = DuplicatesSkipped"
  "class_counter ClassificationDuplicateStatus = DuplicateStatus"
  "class_counter ClassificationOutOfOrder = OutOfOrder"
  "class_counter ClassificationInvalidTransition = InvalidTransitions"
  by (simp_all add: class_counter_def)

lemma total_simps [simp]:
  "total k [] = 0" "total k ((k', d) # xs) = (if k' = k then d else 0) + total k xs"
  by (simp_all add: total_def)

lemma total_append [simp]: "total k (xs @ ys) = total k xs + total k ys"
  by (simp add: total_def)

lemma total_resultAdditions:
  assumes "well_formed_result r"
  shows "total k (resultAdditions r) =
    (if k = Processed \<or> k = class_counter (res_Classification r) \<or>
        k = DeadLetters \<and> res_Classification r = ClassificationInvalidTransition then 1
     else if k = PendingReplayed then word_of_int (res_ReplayedPending r) else 0)"
proof -
  have replayed: "total k (if res_ReplayedPending r > 0
      then [(PendingReplayed, word_of_int (res_ReplayedPending r))] else []) =
      (if k = PendingReplayed then word_of_int (res_ReplayedPending r) else 0)"
    using assms by (auto simp: well_formed_result_def not_less dest: order.antisym)
  from assms consider "res_Classification r = ClassificationApplied"
    | "res_Classification r = ClassificationDuplicateEvent"
    | "res_Classification r = ClassificationDuplicateStatus"
    | "res_Classification r = ClassificationOutOfOrder"
    | "res_Classification r = ClassificationInvalidTransition" "res_DeadLetter r"
    by (auto simp: well_formed_result_def outcome_classes_def)
  then show ?thesis
    unfolding resultAdditions_def total_append replayed
    by cases (cases k; simp)+
qed

lemma total_mset:
  assumes "mset xs = mset ys"
  shows "total k xs = total k ys"
proof -
  have "total k zs = sum_mset (image_mset (\<lambda>(k', d). if k' = k then d else 0) (mset zs))" for zs
    by (simp add: total_def sum_mset_sum_list [symmetric])
  with assms show ?thesis by simp
qed

lemma total_results:
  assumes "\<forall>r \<in> set rs. well_formed_result r"
  shows "total Processed (concat (map resultAdditions rs)) = of_nat (length rs)"
    and "cl \<in> set outcome_classes \<Longrightarrow> total (class_counter cl) (concat (map resultAdditions rs)) =
      of_nat (length (filter (\<lambda>r. res_Classification r = cl) rs))"
    and "total DeadLetters (concat (map resultAdditions rs)) =
      of_nat (length (filter res_DeadLetter rs))"
    and "total PendingReplayed (concat (map resultAdditions rs)) =
      word_of_int (\<Sum>r \<leftarrow> rs. res_ReplayedPending r)"
proof -
  have inj: "class_counter a = class_counter b \<longleftrightarrow> a = b" "class_counter a \<noteq> Processed"
      "class_counter a \<noteq> PendingReplayed" "class_counter a \<noteq> DeadLetters"
    if "a \<in> set outcome_classes" "b \<in> set outcome_classes" for a b
    using that by (auto simp: outcome_classes_def)
  have wf: "res_Classification r \<in> set outcome_classes"
    "res_DeadLetter r \<longleftrightarrow> res_Classification r = ClassificationInvalidTransition"
    if "well_formed_result r" for r
    using that by (auto simp: well_formed_result_def)
  show "total Processed (concat (map resultAdditions rs)) = of_nat (length rs)"
    using assms by (induction rs) (simp_all add: total_resultAdditions)
  show "total (class_counter cl) (concat (map resultAdditions rs)) =
      of_nat (length (filter (\<lambda>r. res_Classification r = cl) rs))" if "cl \<in> set outcome_classes"
    using assms that by (induction rs) (auto simp: total_resultAdditions inj wf)
  have final: "DeadLetters \<noteq> class_counter (res_Classification r)"
    "PendingReplayed \<noteq> class_counter (res_Classification r)" if "well_formed_result r" for r
    using inj [OF wf(1) wf(1)] that by metis+
  show "total DeadLetters (concat (map resultAdditions rs)) =
      of_nat (length (filter res_DeadLetter rs))"
    using assms by (induction rs) (auto simp: total_resultAdditions final wf(2))
  show "total PendingReplayed (concat (map resultAdditions rs)) =
      word_of_int (\<Sum>r \<leftarrow> rs. res_ReplayedPending r)"
    using assms by (induction rs) (auto simp: total_resultAdditions final)
qed

lemma counterOf_new [simp]: "counterOf k (newCollectorAt now) = 0"
  by (cases k) (simp_all add: newCollectorAt_def)

text \<open>
  C28: The counters count.  When the additions of the \<open>RecordResult\<close> calls for the results
  \<open>rs\<close> have all been made, interleaved by the scheduler in any way, the collector holds modulo
  2^64 the number of results, the number of results of each class, the number of dead letters
  and the number of replayed events, and \<open>processed\<close> is the sum of its five classes.
\<close>

theorem counters_count_results:
  assumes "\<forall>r \<in> set rs. well_formed_result r"
    and "mset adds = mset (concat (map resultAdditions rs))"
  shows "let c = addAll adds (newCollectorAt now) in
    processed c = of_nat (length rs) \<and>
    (\<forall>cl \<in> set outcome_classes. counterOf (class_counter cl) c =
       of_nat (length (filter (\<lambda>r. res_Classification r = cl) rs))) \<and>
    deadLetters c = of_nat (length (filter res_DeadLetter rs)) \<and>
    pendingReplayed c = word_of_int (\<Sum>r \<leftarrow> rs. res_ReplayedPending r) \<and>
    processed c = applied c + duplicatesSkipped c + duplicateStatus c + outOfOrder c + invalidTransitions c"
proof -
  let ?c = "addAll adds (newCollectorAt now)"
  have cnt: "counterOf k ?c = total k (concat (map resultAdditions rs))" for k
    using total_mset [OF assms(2)] by (simp add: counterOf_addAll)
  note tot = total_results [OF assms(1)]
  have len: "length rs = (\<Sum>cl \<leftarrow> outcome_classes. length (filter (\<lambda>r. res_Classification r = cl) rs))"
    using assms(1) by (induction rs) (auto simp: well_formed_result_def outcome_classes_def)
  have "processed ?c = applied ?c + duplicatesSkipped ?c + duplicateStatus ?c + outOfOrder ?c +
      invalidTransitions ?c"
    using cnt [of Processed] cnt [of Applied] cnt [of DuplicatesSkipped] cnt [of DuplicateStatus]
      cnt [of OutOfOrder] cnt [of InvalidTransitions] tot(1) len
      tot(2) [of ClassificationApplied] tot(2) [of ClassificationDuplicateEvent]
      tot(2) [of ClassificationDuplicateStatus] tot(2) [of ClassificationOutOfOrder]
      tot(2) [of ClassificationInvalidTransition]
    by (simp add: outcome_classes_def)
  moreover have "processed ?c = of_nat (length rs)" using cnt [of Processed] tot(1) by simp
  moreover have "deadLetters ?c = of_nat (length (filter res_DeadLetter rs))"
    using cnt [of DeadLetters] tot(3) by simp
  moreover have "pendingReplayed ?c = word_of_int (\<Sum>r \<leftarrow> rs. res_ReplayedPending r)"
    using cnt [of PendingReplayed] tot(4) by simp
  ultimately show ?thesis using cnt tot(2) by (simp add: Let_def)
qed

theorem counters_count_results_witness:
  "let r = zeroResult\<lparr>res_Classification := ClassificationApplied, res_Applied := True, res_ReplayedPending := 2\<rparr>;
       c = addAll [(Processed, 1), (PendingReplayed, 2), (Applied, 1)] (newCollectorAt 0)
   in processed c = 1 \<and> pendingReplayed c = 2 \<and>
      processed c = applied c + duplicatesSkipped c + duplicateStatus c + outOfOrder c + invalidTransitions c"
  using counters_count_results [of "[zeroResult\<lparr>res_Classification := ClassificationApplied,
      res_Applied := True, res_ReplayedPending := 2\<rparr>]"
      "[(Processed, 1), (PendingReplayed, 2), (Applied, 1)]" 0]
  by (simp add: well_formed_result_def outcome_classes_def zeroResult_def resultAdditions_def
      Let_def add_eq_conv_ex)

text \<open>
  \<open>GET /stats\<close> degrades per query.  Another method is answered with 405 and no query; a GET
  is always answered with the snapshot, each depth is the queue's answer or zero, and
  \<open>queue_error\<close> is empty exactly if all three queries succeeded.
\<close>

lemma statsHandler_degrades:
  "let (s', resp) = statsHandler queue workerCount meth snapshot s;
       (s1, r1) = qd_QueueDepth queue s; (s2, r2) = qd_StreamLength queue s1;
       (s3, r3) = qd_PendingCount queue s2
   in if meth = ''GET'' then
        s' = s3 \<and> (\<exists>body. resp = StatsJSON body \<and> sr_Snapshot body = snapshot \<and>
          sr_QueueDepth body = (case r1 of Inl _ \<Rightarrow> 0 | Inr d \<Rightarrow> d) \<and>
          sr_StreamLength body = (case r2 of Inl _ \<Rightarrow> 0 | Inr d \<Rightarrow> d) \<and>
          sr_PendingDepth body = (case r3 of Inl _ \<Rightarrow> 0 | Inr d \<Rightarrow> d) \<and>
          (sr_QueueError body = '''' \<longleftrightarrow> isl r1 = False \<and> isl r2 = False \<and> isl r3 = False))
      else s' = s \<and> resp = MethodNotAllowed ''GET''"
proof -
  have "joinStrings sep (x # xs) = '''' \<longleftrightarrow> x = '''' \<and> xs = []" if "sep \<noteq> ''''" for sep x xs
    using that by (cases xs) auto
  then show ?thesis
    by (auto simp: statsHandler_def depthOrError_def Let_def split: prod.splits sum.splits)
qed

end
