(* ===== verification/Go_Time.thy ===== *)
theory Go_Time
  imports Domain Go_Json "HOL-Library.Monad_Syntax"
begin

text \<open>
  Go's \<open>time.Time.UTC().Format(time.RFC3339Nano)\<close> and \<open>time.Parse(time.RFC3339Nano, s)\<close>, the
  part of the standard library the queue relies on: the proleptic Gregorian calendar, decimal
  fields of fixed width, fractional seconds without trailing zeros, and the parser's tolerance
  (a one-digit hour, a comma before the fraction, fractions of more than nine digits, zone
  offsets).  The main result is the round trip for the years 1 to 9999.
\<close>

section \<open>The calendar\<close>

definition leap :: "int \<Rightarrow> bool" where
  "leap y \<longleftrightarrow> y mod 4 = 0 \<and> (y mod 100 \<noteq> 0 \<or> y mod 400 = 0)"

definition month_lengths :: "int \<Rightarrow> int list" where
  "month_lengths y = [31, if leap y then 29 else 28, 31, 30, 31, 30, 31, 31, 30, 31, 30, 31]"

text \<open>Days from January 1 of year 1 to January 1 of year \<open>y\<close>.\<close>

definition days_before_year :: "int \<Rightarrow> int" where
  "days_before_year y = (let n = y - 1 in 365 * n + n div 4 - n div 100 + n div 400)"

definition days_of_date :: "int \<Rightarrow> int \<Rightarrow> int \<Rightarrow> int" where
  "days_of_date y m d =
     days_before_year y + sum_list (take (nat (m - 1)) (month_lengths y)) + (d - 1)"

text \<open>The year of a day and the day within it, by cycles of 400, 100, 4 and 1 years.\<close>

definition year_of_days :: "int \<Rightarrow> int \<times> int" where
  "year_of_days days =
     (let a = days div 146097; d = days mod 146097;
          b = d div 36524 - d div 36524 div 4; d = d - 36524 * b;
          e = d div 1461; d = d mod 1461;
          f = d div 365 - d div 365 div 4; d = d - 365 * f
      in (400 * a + 100 * b + 4 * e + f + 1, d))"

fun month_of_yday :: "int \<Rightarrow> int list \<Rightarrow> int \<Rightarrow> int \<times> int" where
  "month_of_yday m [] yday = (m, yday + 1)"
| "month_of_yday m (len # lens) yday =
     (if yday < len then (m, yday + 1) else month_of_yday (m + 1) lens (yday - len))"

definition date_of_days :: "int \<Rightarrow> int \<times> int \<times> int" where
  "date_of_days days =
     (let (y, yday) = year_of_days days in (y, month_of_yday 1 (month_lengths y) yday))"

section \<open>Formatting\<close>

definition digit_char :: "nat \<Rightarrow> char" where
  "digit_char n = ''0123456789'' ! (n mod 10)"

fun decimal :: "nat \<Rightarrow> string" where
  "decimal n = (if n < 10 then [digit_char n] else decimal (n div 10) @ [digit_char n])"

declare decimal.simps [simp del]

text \<open>\<open>appendInt\<close>: a sign if negative, zeros up to the width, the digits.\<close>

definition appendInt :: "int \<Rightarrow> nat \<Rightarrow> string" where
  "appendInt x width =
     (let ds = decimal (nat (abs x)) in
      (if x < 0 then ''-'' else '''') @ replicate (width - length ds) CHR ''0'' @ ds)"

text \<open>\<open>formatNano\<close> for the layout \<open>.999999999\<close>: nine digits without trailing zeros.\<close>

definition formatNano :: "int \<Rightarrow> string" where
  "formatNano nanosec =
     (let ds = rev (dropWhile (\<lambda>ch. ch = CHR ''0'') (rev (appendInt nanosec 9))) in
      if ds = [] then '''' else CHR ''.'' # ds)"

definition second_ns :: int where "second_ns = 1000000000"

definition formatRFC3339Nano :: "gotime \<Rightarrow> string" where
  "formatRFC3339Nano t =
     (let secs = t div second_ns;
          (year, month, day) = date_of_days (secs div 86400);
          sod = secs mod 86400
      in appendInt year 4 @ ''-'' @ appendInt month 2 @ ''-'' @ appendInt day 2 @ ''T'' @
         appendInt (sod div 3600) 2 @ '':'' @ appendInt (sod mod 3600 div 60) 2 @ '':'' @
         appendInt (sod mod 60) 2 @ formatNano (t mod second_ns) @ ''Z'')"

section \<open>Parsing\<close>

definition digit_val :: "char \<Rightarrow> int" where
  "digit_val ch = of_char ch - 48"

definition digits_val :: "string \<Rightarrow> int" where
  "digits_val ds = foldl (\<lambda>n ch. n * 10 + digit_val ch) 0 ds"

fun getnum :: "bool \<Rightarrow> string \<Rightarrow> (int \<times> string) option" where
  "getnum fixed (a # b # rest) =
     (if \<not> is_digit a then None
      else if is_digit b then Some (digit_val a * 10 + digit_val b, rest)
      else if fixed then None else Some (digit_val a, b # rest))"
| "getnum fixed [a] = (if is_digit a \<and> \<not> fixed then Some (digit_val a, []) else None)"
| "getnum fixed [] = None"

definition getyear :: "string \<Rightarrow> (int \<times> string) option" where
  "getyear v =
     (if length v < 4 \<or> \<not> list_all is_digit (take 4 v) then None
      else Some (digits_val (take 4 v), drop 4 v))"

fun skip :: "char \<Rightarrow> string \<Rightarrow> string option" where
  "skip ch (x # rest) = (if x = ch then Some rest else None)"
| "skip ch [] = None"

definition guardO :: "bool \<Rightarrow> unit option" where
  "guardO b = (if b then Some () else None)"

text \<open>The fraction is optional; digits after the ninth are dropped.\<close>

fun getfrac :: "string \<Rightarrow> int \<times> string" where
  "getfrac (p # x # rest) =
     (if (p = CHR ''.'' \<or> p = CHR '','') \<and> is_digit x then
        (let ds = takeWhile is_digit (x # rest); used = take 9 ds in
         (digits_val used * 10 ^ (9 - length used), dropWhile is_digit (x # rest)))
      else (0, p # x # rest))"
| "getfrac v = (0, v)"

text \<open>\<open>Z\<close>, or a signed offset \<open>hh:mm\<close>; the result is the offset in seconds.\<close>

definition getzone :: "string \<Rightarrow> (int \<times> string) option" where
  "getzone v =
     (case v of
        [] \<Rightarrow> None
      | sign # rest \<Rightarrow>
          if sign = CHR ''Z'' then Some (0, rest)
          else if length v < 6 then None
          else do {
            (hr, rest1) \<leftarrow> getnum True (take 2 rest);
            rest2 \<leftarrow> skip CHR '':'' (drop 2 rest);
            (mm, rest3) \<leftarrow> getnum True (take 2 rest2);
            guardO (hr \<le> 24 \<and> mm \<le> 60);
            if sign = CHR ''+'' then Some ((hr * 60 + mm) * 60, drop 2 rest2)
            else if sign = CHR ''-'' then Some (- ((hr * 60 + mm) * 60), drop 2 rest2)
            else None })"

definition parseRFC3339Nano :: "string \<Rightarrow> gotime option" where
  "parseRFC3339Nano v = do {
     (year, v) \<leftarrow> getyear v;
     v \<leftarrow> skip CHR ''-'' v;
     (month, v) \<leftarrow> getnum True v;
     guardO (1 \<le> month \<and> month \<le> 12);
     v \<leftarrow> skip CHR ''-'' v;
     (day, v) \<leftarrow> getnum True v;
     v \<leftarrow> skip CHR ''T'' v;
     (hour, v) \<leftarrow> getnum False v;
     guardO (hour < 24);
     v \<leftarrow> skip CHR '':'' v;
     (minute, v) \<leftarrow> getnum True v;
     guardO (minute < 60);
     v \<leftarrow> skip CHR '':'' v;
     (sec, v) \<leftarrow> getnum True v;
     guardO (sec < 60);
     let (nsec, v) = getfrac v;
     (offset, v) \<leftarrow> getzone v;
     guardO (v = []);
     guardO (1 \<le> day \<and> day \<le> month_lengths year ! nat (month - 1));
     Some (((days_of_date year month day * 86400 + hour * 3600 + minute * 60 + sec) - offset) *
       second_ns + nsec) }"

section \<open>The calendar is a bijection\<close>

lemma year_cycles:
  fixes days :: int
  obtains a b e f d where "year_of_days days = (400 * a + 100 * b + 4 * e + f + 1, d)"
    and "days = 146097 * a + 36524 * b + 1461 * e + 365 * f + d"
    and "0 \<le> b" "b \<le> 3" "0 \<le> e" "e \<le> 24" "0 \<le> f" "f \<le> 3" "0 \<le> d" "d \<le> 365"
    and "d = 365 \<Longrightarrow> f = 3" and "d = 365 \<Longrightarrow> e = 24 \<Longrightarrow> b = 3"
proof -
  define d0 where "d0 = days mod 146097"
  define b where "b = d0 div 36524 - d0 div 36524 div 4"
  define d1 where "d1 = d0 - 36524 * b"
  define e where "e = d1 div 1461"
  define d2 where "d2 = d1 mod 1461"
  define f where "f = d2 div 365 - d2 div 365 div 4"
  define d where "d = d2 - 365 * f"
  have d0: "0 \<le> d0" "d0 < 146097" by (simp_all add: d0_def)
  have "0 \<le> d0 div 36524" "d0 div 36524 \<le> 146096 div 36524"
    using d0 by (simp_all add: pos_imp_zdiv_nonneg_iff zdiv_mono1)
  then consider "d0 div 36524 = 0" | "d0 div 36524 = 1" | "d0 div 36524 = 2" | "d0 div 36524 = 3"
    | "d0 div 36524 = 4" by force
  moreover have "d0 = 36524 * (d0 div 36524) + d0 mod 36524" "0 \<le> d0 mod 36524" "d0 mod 36524 < 36524"
    by simp_all
  ultimately have b: "0 \<le> b" "b \<le> 3" "0 \<le> d1" "d1 \<le> 36524" "d1 = 36524 \<longrightarrow> b = 3"
    using d0 unfolding b_def d1_def by (cases; simp)+
  have e: "0 \<le> e" "e \<le> 24" "d1 = 1461 * e + d2" "0 \<le> d2" "d2 < 1461"
    using b zdiv_mono1 [OF b(4), of 1461] unfolding e_def d2_def
    by (simp_all add: pos_imp_zdiv_nonneg_iff)
  have "0 \<le> d2 div 365" "d2 div 365 \<le> 1460 div 365"
    using e by (simp_all add: pos_imp_zdiv_nonneg_iff zdiv_mono1)
  then consider "d2 div 365 = 0" | "d2 div 365 = 1" | "d2 div 365 = 2" | "d2 div 365 = 3"
    | "d2 div 365 = 4" by force
  moreover have "d2 = 365 * (d2 div 365) + d2 mod 365" "0 \<le> d2 mod 365" "d2 mod 365 < 365"
    by simp_all
  ultimately have f: "0 \<le> f" "f \<le> 3" "0 \<le> d" "d \<le> 365" "d = 365 \<longrightarrow> f = 3 \<and> d2 = 1460"
    using e unfolding f_def d_def by (cases; simp)+
  have "year_of_days days = (400 * (days div 146097) + 100 * b + 4 * e + f + 1, d)"
    by (simp add: year_of_days_def Let_def d0_def b_def d1_def e_def d2_def f_def d_def)
  moreover have "days = 146097 * (days div 146097) + 36524 * b + 1461 * e + 365 * f + d"
    using e(3) mult_div_mod_eq [of 146097 days] unfolding d_def d1_def d0_def by linarith
  moreover have "b = 3" if "d = 365" "e = 24"
    using that b(5) e(3) f(5) by simp
  ultimately show thesis using that b e f by blast
qed

lemma year_of_days_correct:
  assumes "year_of_days days = (y, d)"
  shows "days_before_year y + d = days" and "0 \<le> d" and "d < (if leap y then 366 else 365)"
proof -
  obtain a b e f where eqs: "y = 400 * a + 100 * b + 4 * e + f + 1"
      "days = 146097 * a + 36524 * b + 1461 * e + 365 * f + d"
    and bnd: "0 \<le> b" "b \<le> 3" "0 \<le> e" "e \<le> 24" "0 \<le> f" "f \<le> 3" "0 \<le> d" "d \<le> 365"
    and last: "d = 365 \<Longrightarrow> f = 3" "d = 365 \<Longrightarrow> e = 24 \<Longrightarrow> b = 3"
    by (rule year_cycles [of days]) (use assms in auto)
  have divs: "(y - 1) div 4 = 100 * a + 25 * b + e" "(y - 1) div 100 = 4 * a + b" "(y - 1) div 400 = a"
    using eqs(1) bnd by (auto intro!: int_div_pos_eq [where r = f] int_div_pos_eq [where r = "4 * e + f"]
        int_div_pos_eq [where r = "100 * b + 4 * e + f"])
  show "days_before_year y + d = days"
    unfolding days_before_year_def Let_def divs using eqs by simp
  show "0 \<le> d" by (fact bnd)
  have "leap y" if "d = 365"
  proof -
    from last(1) [OF that] eqs(1) have y: "y = 4 * (100 * a + 25 * b + e + 1)" by simp
    then have "y mod 4 = 0" by simp
    moreover have "y mod 400 = 0" if "y mod 100 = 0"
    proof -
      have "y mod 100 = 4 * (e + 1)" if "e < 24"
        using that y bnd(3) by (intro int_mod_pos_eq [where q = "4 * a + b"]) auto
      with \<open>y mod 100 = 0\<close> bnd(3,4) have "e = 24" by fastforce
      with y last(2) \<open>d = 365\<close> have "y = 400 * (a + 1)" by simp
      then show ?thesis by simp
    qed
    ultimately show ?thesis by (auto simp: leap_def)
  qed
  with bnd(8) show "d < (if leap y then 366 else 365)" by (cases "d = 365") simp_all
qed

lemma month_of_yday_correct:
  assumes "0 \<le> yday" and "yday < sum_list lens" and "month_of_yday m lens yday = (m', d)"
    and "\<forall>len \<in> set lens. 0 < len"
  shows "m \<le> m' \<and> m' < m + int (length lens) \<and> 1 \<le> d \<and> d \<le> lens ! nat (m' - m) \<and>
    sum_list (take (nat (m' - m)) lens) + (d - 1) = yday"
  using assms
proof (induction m lens yday rule: month_of_yday.induct)
  case (2 m len lens yday)
  show ?case
  proof (cases "yday < len")
    case False
    with 2 have "m + 1 \<le> m' \<and> m' < m + 1 + int (length lens) \<and> 1 \<le> d \<and>
        d \<le> lens ! nat (m' - (m + 1)) \<and> sum_list (take (nat (m' - (m + 1))) lens) + (d - 1) = yday - len"
      by simp
    moreover from this have "nat (m' - m) = Suc (nat (m' - (m + 1)))" by linarith
    ultimately show ?thesis by simp
  qed (use 2 in simp)
qed simp

lemma date_of_days_correct:
  assumes "date_of_days days = (y, m, d)"
  shows "days_of_date y m d = days" and "1 \<le> m" "m \<le> 12" "1 \<le> d" "d \<le> month_lengths y ! nat (m - 1)"
proof -
  obtain yday where yd: "year_of_days days = (y, yday)" "month_of_yday 1 (month_lengths y) yday = (m, d)"
    using assms by (auto simp: date_of_days_def split: prod.splits)
  note y = year_of_days_correct [OF yd(1)]
  have "yday < sum_list (month_lengths y)"
    using y(3) by (simp add: month_lengths_def split: if_splits)
  moreover have "\<forall>len \<in> set (month_lengths y). 0 < len" and "length (month_lengths y) = 12"
    by (simp_all add: month_lengths_def)
  ultimately show "days_of_date y m d = days" and "1 \<le> m" "m \<le> 12" "1 \<le> d"
      "d \<le> month_lengths y ! nat (m - 1)"
    using month_of_yday_correct [OF y(2) _ yd(2)] y(1) by (auto simp: days_of_date_def)
qed

lemma year_of_days_range:
  assumes "0 \<le> days" and "days < days_before_year 10000" and "year_of_days days = (y, d)"
  shows "1 \<le> y" and "y < 10000"
proof -
  obtain a b e f where eqs: "y = 400 * a + 100 * b + 4 * e + f + 1"
      "days = 146097 * a + 36524 * b + 1461 * e + 365 * f + d"
    and bnd: "0 \<le> b" "b \<le> 3" "0 \<le> e" "e \<le> 24" "0 \<le> f" "f \<le> 3" "0 \<le> d" "d \<le> 365"
    and last: "d = 365 \<Longrightarrow> f = 3" "d = 365 \<Longrightarrow> e = 24 \<Longrightarrow> b = 3"
    by (rule year_cycles [of days]) (use assms(3) in auto)
  have total: "days_before_year 10000 = 3652059" by (simp add: days_before_year_def)
  have "d \<le> 364 \<or> f = 3 \<and> (e \<le> 23 \<or> b = 3)" using bnd last by fastforce
  with eqs(2) bnd assms(1) have "0 \<le> a" by arith
  with eqs(1) bnd show "1 \<le> y" by simp
  show "y < 10000"
  proof (rule ccontr)
    assume "\<not> y < 10000"
    moreover have "a \<le> 24" using eqs(2) bnd assms(2) total by simp
    ultimately show False using eqs bnd assms(2) total by simp
  qed
qed

section \<open>Decimal fields\<close>

fun fixed_digits :: "nat \<Rightarrow> nat \<Rightarrow> string" where
  "fixed_digits 0 n = []"
| "fixed_digits (Suc w) n = fixed_digits w (n div 10) @ [digit_char n]"

lemma length_fixed_digits [simp]: "length (fixed_digits w n) = w"
  by (induction w arbitrary: n) simp_all

lemma fixed_digits_zero: "fixed_digits w 0 = replicate w CHR ''0''"
  by (induction w) (simp_all add: digit_char_def replicate_append_same)

lemma decimal_fixed:
  assumes "n < 10 ^ w" and "0 < w"
  shows "replicate (w - length (decimal n)) CHR ''0'' @ decimal n = fixed_digits w n"
  using assms
proof (induction w arbitrary: n)
  case (Suc w)
  show ?case
  proof (cases "n < 10")
    case True
    then show ?thesis by (simp add: decimal.simps [of n] fixed_digits_zero)
  next
    case False
    with Suc.prems have "n div 10 < 10 ^ w" "0 < w"
      by (auto simp: div_less_iff_less_mult mult.commute intro: Nat.gr0I)
    from Suc.IH [OF this] False show ?thesis by (simp add: decimal.simps [of n])
  qed
qed simp

lemma appendInt_fixed:
  assumes "0 \<le> x" and "x < 10 ^ w" and "0 < w"
  shows "appendInt x w = fixed_digits w (nat x)"
proof -
  have "nat x < 10 ^ w" using assms(1,2) by (simp add: nat_less_iff)
  with decimal_fixed [OF this assms(3)] assms(1) show ?thesis by (simp add: appendInt_def Let_def)
qed

lemma digit_char_facts [simp]:
  "is_digit (digit_char n)" "digit_val (digit_char n) = int (n mod 10)"
  "digit_char n = CHR ''0'' \<longleftrightarrow> n mod 10 = 0"
proof -
  have "m \<in> {0, 1, 2, 3, 4, 5, 6, 7, 8, 9}" if "m < 10" for m :: nat using that by auto
  from this [of "n mod 10"] show "is_digit (digit_char n)" "digit_val (digit_char n) = int (n mod 10)"
    "digit_char n = CHR ''0'' \<longleftrightarrow> n mod 10 = 0"
    unfolding digit_char_def is_digit_def digit_val_def by auto
qed

lemma digits_val_snoc [simp]:
  "digits_val [] = 0" "digits_val (ds @ [ch]) = digits_val ds * 10 + digit_val ch"
  by (simp_all add: digits_val_def)

lemma digits_val_fixed: "n < 10 ^ w \<Longrightarrow> digits_val (fixed_digits w n) = int n"
proof (induction w arbitrary: n)
  case (Suc w)
  then have "n div 10 < 10 ^ w" by (simp add: div_less_iff_less_mult mult.commute)
  with Suc.IH have "digits_val (fixed_digits w (n div 10)) = int (n div 10)" by blast
  then show ?case by (simp add: zdiv_int zmod_int)
qed simp

lemma list_all_fixed [simp]: "list_all is_digit (fixed_digits w n)"
  by (induction w arbitrary: n) simp_all

lemma getnum_fixed: "n < 100 \<Longrightarrow> getnum b (fixed_digits 2 n @ rest) = Some (int n, rest)"
  by (simp add: numeral_2_eq_2) presburger

lemma getyear_fixed: "n < 10000 \<Longrightarrow> getyear (fixed_digits 4 n @ rest) = Some (int n, rest)"
  using digits_val_fixed [of n 4] by (simp add: getyear_def)

lemma digits_val_zeros: "digits_val (ds @ replicate k CHR ''0'') = digits_val ds * 10 ^ k"
proof (induction k)
  case (Suc k)
  have "ds @ replicate (Suc k) CHR ''0'' = (ds @ replicate k CHR ''0'') @ [CHR ''0'']"
    by (simp add: replicate_append_same)
  then have "digits_val (ds @ replicate (Suc k) CHR ''0'') =
      digits_val (ds @ replicate k CHR ''0'') * 10 + digit_val (CHR ''0'')"
    by (simp only: digits_val_snoc)
  with Suc show ?case by (simp add: digit_val_def)
qed simp

text \<open>Without its trailing zeros the fraction still has its value, scaled by its length.\<close>

lemma getfrac_formatNano:
  assumes "0 \<le> ns" and "ns < 10 ^ 9"
  shows "getfrac (formatNano ns @ ''Z'') = (ns, ''Z'')"
proof -
  define ds where "ds = fixed_digits 9 (nat ns)"
  define kept where "kept = rev (dropWhile (\<lambda>ch. ch = CHR ''0'') (rev ds))"
  define zeros where "zeros = rev (takeWhile (\<lambda>ch. ch = CHR ''0'') (rev ds))"
  have split: "ds = kept @ zeros"
    unfolding kept_def zeros_def by (metis rev_append rev_rev_ident takeWhile_dropWhile_id)
  have "set zeros \<subseteq> {CHR ''0''}" unfolding zeros_def by (auto dest: set_takeWhileD)
  then have zeros: "zeros = replicate (length zeros) CHR ''0''"
    by (metis replicate_length_same subset_singletonD empty_iff singletonD)
  have len: "length kept + length zeros = 9" using split by (metis ds_def length_append length_fixed_digits)
  have val: "digits_val kept * 10 ^ (9 - length kept) = ns"
  proof -
    have "digits_val ds = ns" unfolding ds_def using assms by (subst digits_val_fixed) auto
    with digits_val_zeros [of kept "length zeros"] split zeros len show ?thesis
      by (metis add_diff_cancel_left')
  qed
  have digits: "list_all is_digit kept"
    using list_all_fixed [of 9 "nat ns"] split by (simp add: ds_def [symmetric])
  have fmt: "formatNano ns = (if kept = [] then '''' else CHR ''.'' # kept)"
    using assms by (simp add: formatNano_def Let_def appendInt_fixed kept_def ds_def)
  show ?thesis
  proof (cases kept)
    case Nil
    with val fmt show ?thesis by simp
  next
    case (Cons x xs)
    have tw: "takeWhile is_digit (kept @ ''Z'') = kept" "dropWhile is_digit (kept @ ''Z'') = ''Z''"
      using digits by (simp_all add: takeWhile_append dropWhile_append list_all_iff is_digit_def)
    have "is_digit x" using digits Cons by simp
    moreover have "take 9 kept = kept" using len by simp
    ultimately show ?thesis using tw val fmt Cons by (simp add: Let_def)
  qed
qed

section \<open>The round trip\<close>

text \<open>The instants of the years 1 to 9999.\<close>

definition four_digit_year :: "gotime \<Rightarrow> bool" where
  "four_digit_year t \<longleftrightarrow> 0 \<le> t \<and> t < days_before_year 10000 * 86400 * second_ns"

lemma parse_fields:
  assumes "0 \<le> y" "y < 10000" and "1 \<le> m" "m \<le> 12" and "1 \<le> d" "d \<le> month_lengths y ! nat (m - 1)" "d < 100"
    and "0 \<le> h" "h < 24" and "0 \<le> mi" "mi < 60" and "0 \<le> sec" "sec < 60"
    and "getfrac (fr @ ''Z'') = (ns, ''Z'')"
  shows "parseRFC3339Nano (fixed_digits 4 (nat y) @ ''-'' @ fixed_digits 2 (nat m) @ ''-'' @
      fixed_digits 2 (nat d) @ ''T'' @ fixed_digits 2 (nat h) @ '':'' @ fixed_digits 2 (nat mi) @ '':'' @
      fixed_digits 2 (nat sec) @ fr @ ''Z'') =
    Some ((days_of_date y m d * 86400 + h * 3600 + mi * 60 + sec) * second_ns + ns)"
proof -
  have num: "getnum b (fixed_digits 2 (nat x) @ rest) = Some (x, rest)" if "0 \<le> x" "x < 100" for b x rest
    using that by (subst getnum_fixed) (simp_all add: nat_less_iff)
  have year: "getyear (fixed_digits 4 (nat y) @ rest) = Some (y, rest)" for rest
    using assms(1,2) by (subst getyear_fixed) (simp_all add: nat_less_iff)
  have fields: "getnum b (fixed_digits 2 (nat m) @ rest) = Some (m, rest)"
    "getnum b (fixed_digits 2 (nat d) @ rest) = Some (d, rest)"
    "getnum b (fixed_digits 2 (nat h) @ rest) = Some (h, rest)"
    "getnum b (fixed_digits 2 (nat mi) @ rest) = Some (mi, rest)"
    "getnum b (fixed_digits 2 (nat sec) @ rest) = Some (sec, rest)" for b rest
    by (rule num; use assms in linarith)+
  have bounds: "(1 \<le> m \<and> m \<le> 12) = True" "(h < 24) = True" "(mi < 60) = True" "(sec < 60) = True"
    "(1 \<le> d \<and> d \<le> month_lengths y ! nat (m - 1)) = True"
    using assms by simp_all
  have skips: "skip ch ([ch] @ rest) = Some rest" for ch rest by simp
  show ?thesis
    unfolding parseRFC3339Nano_def year guardO_def Option.bind.bind_lunit prod.case skips fields bounds if_True
      assms(14) Let_def getzone_def list.case
    by simp
qed

lemma parse_format:
  assumes "four_digit_year t"
  shows "parseRFC3339Nano (formatRFC3339Nano t) = Some t"
proof -
  define secs where "secs = t div second_ns"
  define ns where "ns = t mod second_ns"
  obtain y m d where date: "date_of_days (secs div 86400) = (y, m, d)" by (metis prod_cases3)
  define sod where "sod = secs mod 86400"
  have t: "t = secs * second_ns + ns" and ns: "0 \<le> ns" "ns < 10 ^ 9"
    by (simp_all add: secs_def ns_def second_ns_def)
  have secs: "0 \<le> secs" "secs < days_before_year 10000 * 86400"
    using assms by (auto simp: four_digit_year_def secs_def second_ns_def)
  have days: "0 \<le> secs div 86400" "secs div 86400 < days_before_year 10000"
    using secs by (auto simp: pos_imp_zdiv_nonneg_iff)
  obtain yday where "year_of_days (secs div 86400) = (y, yday)"
    using date by (auto simp: date_of_days_def split: prod.splits)
  note y = year_of_days_range [OF days this]
  note md = date_of_days_correct [OF date]
  have dlen: "month_lengths y ! nat (m - 1) \<le> 31"
  proof -
    have "\<forall>len \<in> set (month_lengths y). len \<le> 31" by (simp add: month_lengths_def)
    moreover have "nat (m - 1) < length (month_lengths y)"
      using md(2,3) by (simp add: month_lengths_def)
    ultimately show ?thesis by (meson nth_mem)
  qed
  have sod: "0 \<le> sod div 3600" "sod div 3600 < 24" "0 \<le> sod mod 3600 div 60" "sod mod 3600 div 60 < 60"
      "0 \<le> sod mod 60" "sod mod 60 < 60"
    by (simp_all add: sod_def pos_imp_zdiv_nonneg_iff)
  have hms: "sod div 3600 * 3600 + sod mod 3600 div 60 * 60 + sod mod 60 = sod"
  proof -
    have "sod mod 3600 mod 60 = sod mod 60" by (simp add: mod_mod_cancel)
    then have "sod mod 3600 div 60 * 60 + sod mod 60 = sod mod 3600"
      using div_mult_mod_eq [of "sod mod 3600" 60] by simp
    then show ?thesis using div_mult_mod_eq [of sod 3600] by linarith
  qed
  have fmt: "formatRFC3339Nano t = fixed_digits 4 (nat y) @ ''-'' @ fixed_digits 2 (nat m) @ ''-'' @
      fixed_digits 2 (nat d) @ ''T'' @ fixed_digits 2 (nat (sod div 3600)) @ '':'' @
      fixed_digits 2 (nat (sod mod 3600 div 60)) @ '':'' @ fixed_digits 2 (nat (sod mod 60)) @
      formatNano ns @ ''Z''"
  proof -
    have "appendInt y 4 = fixed_digits 4 (nat y)" using y by (intro appendInt_fixed) simp_all
    moreover have "appendInt x 2 = fixed_digits 2 (nat x)" if "0 \<le> x" "x < 100" for x
      using that by (intro appendInt_fixed) simp_all
    ultimately show ?thesis
      unfolding formatRFC3339Nano_def Let_def secs_def [symmetric] date prod.case sod_def [symmetric]
        ns_def [symmetric]
      using md(2-5) dlen sod by simp
  qed
  have "d < 100" using md(5) dlen by simp
  from parse_fields [OF _ y(2) md(2-5) this sod getfrac_formatNano [OF ns]] y(1)
  have parsed: "parseRFC3339Nano (formatRFC3339Nano t) =
      Some ((days_of_date y m d * 86400 + sod div 3600 * 3600 + sod mod 3600 div 60 * 60 + sod mod 60) *
        second_ns + ns)"
    unfolding fmt by simp
  have "days_of_date y m d * 86400 + sod div 3600 * 3600 + sod mod 3600 div 60 * 60 + sod mod 60 = secs"
    using hms md(1) div_mult_mod_eq [of secs 86400] unfolding sod_def [symmetric] by linarith
  with parsed t show ?thesis by simp
qed

end
