(* ===== verification/Queue.thy ===== *)
theory Queue
  imports Go_Time
begin

text \<open>
  \<open>internal/queue/redis_stream.go\<close>, function by function.  The Redis client library is not
  part of the repository: it is a record of operations over an unspecified client state, which
  the definitions take as an argument.  Every \<open>fmt.Errorf\<close> and \<open>errors.New\<close> of the source
  is a constructor of \<open>queue_error\<close>.  The loop of \<open>ClaimPending\<close> follows the cursor the
  server returns and may run forever on a server that keeps inventing cursors, so it is a
  \<open>partial_function (option)\<close>.
\<close>

section \<open>Messages\<close>

definition fieldEventID :: string where "fieldEventID = ''event_id''"
definition fieldOrderID :: string where "fieldOrderID = ''order_id''"
definition fieldStatus :: string where "fieldStatus = ''status''"
definition fieldTimestamp :: string where "fieldTimestamp = ''timestamp''"
definition fieldPayload :: string where "fieldPayload = ''payload''"

record StreamMessage =
  RedisID :: string
  Event :: OrderEvent
  Attempts :: int

text \<open>The values of a Go \<open>map[string]any\<close> that the type switch tells apart.\<close>

datatype any = AnyString string | AnyBytes string | AnyOther

type_synonym fields = "string \<rightharpoonup> any"

record XMessage =
  xm_ID :: string
  xm_Values :: fields

section \<open>Errors\<close>

text \<open>Errors of the client library: \<open>redis.Nil\<close>, a cancelled context, a server or network error.\<close>

datatype redis_error = RedisNil | ContextCanceled | RedisError string

datatype queue_error =
    QEventIDRequired | QOrderIDRequired | QStatusRequired | QTimestampRequired
  | QPayloadNotObject json_error | QPayloadNil
  | QFieldMissing string | QFieldType string | QFieldEmpty string
  | QNotRFC3339 string | QField string queue_error
  | QParse string queue_error
  | QSerialize queue_error
  | QPublish string string redis_error
  | QCreateGroup string string redis_error
  | QConsumerRequired | QReadCount | QMinIdle | QClaimCount | QRedisIDRequired
  | QRead string string redis_error
  | QClaim string redis_error
  | QAck string redis_error
  | QLength string redis_error
  | QPending string string redis_error
  | QLag string string redis_error queue_error

text \<open>\<open>errors.Is(err, context.Canceled)\<close> looks through the wrapped errors.\<close>

fun isCanceled :: "queue_error \<Rightarrow> bool" where
  "isCanceled (QPublish _ _ e) \<longleftrightarrow> e = ContextCanceled"
| "isCanceled (QCreateGroup _ _ e) \<longleftrightarrow> e = ContextCanceled"
| "isCanceled (QRead _ _ e) \<longleftrightarrow> e = ContextCanceled"
| "isCanceled (QClaim _ e) \<longleftrightarrow> e = ContextCanceled"
| "isCanceled (QAck _ e) \<longleftrightarrow> e = ContextCanceled"
| "isCanceled (QLength _ e) \<longleftrightarrow> e = ContextCanceled"
| "isCanceled (QPending _ _ e) \<longleftrightarrow> e = ContextCanceled"
| "isCanceled (QLag _ _ _ e) \<longleftrightarrow> isCanceled e"
| "isCanceled (QField _ e) \<longleftrightarrow> isCanceled e"
| "isCanceled (QParse _ e) \<longleftrightarrow> isCanceled e"
| "isCanceled (QSerialize e) \<longleftrightarrow> isCanceled e"
| "isCanceled _ \<longleftrightarrow> False"

section \<open>Encoding and decoding\<close>

definition normalizePayload :: "string \<Rightarrow> queue_error + string" where
  "normalizePayload payload =
     (if length payload = 0 then Inr ''{}''
      else (case unmarshal_object payload of
              Inl err \<Rightarrow> Inl (QPayloadNotObject err)
            | Inr nonnil \<Rightarrow> if \<not> nonnil then Inl QPayloadNil else Inr payload))"

definition eventFields :: "OrderEvent \<Rightarrow> queue_error + fields" where
  "eventFields event =
     (if EventID event = '''' then Inl QEventIDRequired
      else if OrderID event = '''' then Inl QOrderIDRequired
      else if Status event = '''' then Inl QStatusRequired
      else if IsZero (Timestamp event) then Inl QTimestampRequired
      else (case normalizePayload (Payload event) of
              Inl err \<Rightarrow> Inl err
            | Inr encodedPayload \<Rightarrow>
                Inr [fieldEventID \<mapsto> AnyString (EventID event),
                     fieldOrderID \<mapsto> AnyString (OrderID event),
                     fieldStatus \<mapsto> AnyString (Status event),
                     fieldTimestamp \<mapsto> AnyString (formatRFC3339Nano (Timestamp event)),
                     fieldPayload \<mapsto> AnyString encodedPayload]))"

definition requiredStringField :: "fields \<Rightarrow> string \<Rightarrow> queue_error + string" where
  "requiredStringField vals name =
     (case vals name of
        None \<Rightarrow> Inl (QFieldMissing name)
      | Some (AnyString s) \<Rightarrow> if s = '''' then Inl (QFieldEmpty name) else Inr s
      | Some (AnyBytes s) \<Rightarrow> if s = '''' then Inl (QFieldEmpty name) else Inr s
      | Some AnyOther \<Rightarrow> Inl (QFieldType name))"

text \<open>Error-first sequencing of the pure functions of this file.\<close>

definition bindE :: "'e + 'a \<Rightarrow> ('a \<Rightarrow> 'e + 'b) \<Rightarrow> 'e + 'b" where
  "bindE r k = (case r of Inl e \<Rightarrow> Inl e | Inr a \<Rightarrow> k a)"

definition parseStreamMessage :: "XMessage \<Rightarrow> queue_error + StreamMessage" where
  "parseStreamMessage message =
     (let get = requiredStringField (xm_Values message) in
      bindE (get fieldEventID) (\<lambda>eventID.
      bindE (get fieldOrderID) (\<lambda>orderID.
      bindE (get fieldStatus) (\<lambda>status.
      bindE (get fieldTimestamp) (\<lambda>timestampValue.
      bindE (get fieldPayload) (\<lambda>payloadValue.
      bindE (case parseRFC3339Nano timestampValue of
               None \<Rightarrow> Inl (QNotRFC3339 fieldTimestamp) | Some t \<Rightarrow> Inr t) (\<lambda>timestamp.
      bindE (case normalizePayload payloadValue of
               Inl err \<Rightarrow> Inl (QField fieldPayload err) | Inr p \<Rightarrow> Inr p) (\<lambda>payload.
      Inr \<lparr>RedisID = xm_ID message,
           Event = \<lparr>EventID = eventID, OrderID = orderID, Status = status,
                    Timestamp = timestamp, Payload = payload\<rparr>,
           Attempts = 0\<rparr>))))))))"

fun parseStreamMessages :: "XMessage list \<Rightarrow> queue_error + StreamMessage list" where
  "parseStreamMessages [] = Inr []"
| "parseStreamMessages (message # messages) =
     (case parseStreamMessage message of
        Inl err \<Rightarrow> Inl (QParse (xm_ID message) err)
      | Inr parsed \<Rightarrow> bindE (parseStreamMessages messages) (\<lambda>rest. Inr (parsed # rest)))"

section \<open>The client and the adapter\<close>

record XInfoGroup =
  xi_Name :: string
  xi_Lag :: int

record XStream =
  xs_Stream :: string
  xs_Messages :: "XMessage list"

text \<open>The methods of \<open>*redis.Client\<close> the adapter calls, and \<open>redis.HasErrorPrefix\<close>.\<close>

record 's redis_client =
  XGroupCreateMkStream :: "string \<Rightarrow> string \<Rightarrow> string \<Rightarrow> 's \<Rightarrow> 's \<times> redis_error option"
  XAdd :: "string \<Rightarrow> fields \<Rightarrow> 's \<Rightarrow> 's \<times> (redis_error + string)"
  XReadGroup :: "string \<Rightarrow> string \<Rightarrow> string \<Rightarrow> int \<Rightarrow> int \<Rightarrow> 's \<Rightarrow> 's \<times> (redis_error + XStream list)"
  XAutoClaim :: "string \<Rightarrow> string \<Rightarrow> string \<Rightarrow> int \<Rightarrow> string \<Rightarrow> int \<Rightarrow> 's \<Rightarrow>
    's \<times> (redis_error + XMessage list \<times> string)"
  XAck :: "string \<Rightarrow> string \<Rightarrow> string \<Rightarrow> 's \<Rightarrow> 's \<times> redis_error option"
  XInfoGroups :: "string \<Rightarrow> 's \<Rightarrow> 's \<times> (redis_error + XInfoGroup list)"
  XLen :: "string \<Rightarrow> 's \<Rightarrow> 's \<times> (redis_error + int)"
  XPending :: "string \<Rightarrow> string \<Rightarrow> 's \<Rightarrow> 's \<times> (redis_error + int)"
  HasErrorPrefix :: "redis_error \<Rightarrow> string \<Rightarrow> bool"

record 's RedisStreamQueue =
  client :: "'s redis_client"
  streamName :: string
  groupName :: string

definition NewRedisStreamQueue :: "'s redis_client \<Rightarrow> string \<Rightarrow> string \<Rightarrow> 's RedisStreamQueue" where
  "NewRedisStreamQueue c stream grp = \<lparr>client = c, streamName = stream, groupName = grp\<rparr>"

definition EnsureGroup :: "'s RedisStreamQueue \<Rightarrow> 's \<Rightarrow> 's \<times> queue_error option" where
  "EnsureGroup q s =
     (case XGroupCreateMkStream (client q) (streamName q) (groupName q) ''0'' s of
        (s', None) \<Rightarrow> (s', None)
      | (s', Some err) \<Rightarrow>
          if HasErrorPrefix (client q) err ''BUSYGROUP'' then (s', None)
          else (s', Some (QCreateGroup (groupName q) (streamName q) err)))"

definition Publish :: "'s RedisStreamQueue \<Rightarrow> OrderEvent \<Rightarrow> 's \<Rightarrow> 's \<times> (queue_error + string)" where
  "Publish q event s =
     (case eventFields event of
        Inl err \<Rightarrow> (s, Inl (QSerialize err))
      | Inr vals \<Rightarrow>
          (case XAdd (client q) (streamName q) vals s of
             (s', Inl err) \<Rightarrow> (s', Inl (QPublish (EventID event) (streamName q) err))
           | (s', Inr redisID) \<Rightarrow> (s', Inr redisID)))"

text \<open>The loop over the streams of a reply: the first parse error discards everything.\<close>

fun parseStreams :: "XStream list \<Rightarrow> StreamMessage list \<Rightarrow> queue_error + StreamMessage list" where
  "parseStreams [] messages = Inr messages"
| "parseStreams (stream # streams) messages =
     bindE (parseStreamMessages (xs_Messages stream))
       (\<lambda>parsed. parseStreams streams (messages @ parsed))"

definition ReadGroup ::
  "'s RedisStreamQueue \<Rightarrow> string \<Rightarrow> int \<Rightarrow> int \<Rightarrow> 's \<Rightarrow> 's \<times> (queue_error + StreamMessage list)" where
  "ReadGroup q consumerName count block s =
     (if consumerName = '''' then (s, Inl QConsumerRequired)
      else if count \<le> 0 then (s, Inl QReadCount)
      else
        (case XReadGroup (client q) (groupName q) consumerName (streamName q) count block s of
           (s', Inl err) \<Rightarrow>
             if err = RedisNil then (s', Inr [])
             else (s', Inl (QRead (streamName q) consumerName err))
         | (s', Inr streams) \<Rightarrow> (s', parseStreams streams [])))"

partial_function (option) claimLoop ::
  "'s RedisStreamQueue \<Rightarrow> string \<Rightarrow> int \<Rightarrow> int \<Rightarrow> StreamMessage list \<Rightarrow> string \<Rightarrow> 's \<Rightarrow>
   ('s \<times> (queue_error + StreamMessage list)) option"
where
  "claimLoop q consumerName minIdle count claimed start s =
     (if \<not> int (length claimed) < count then Some (s, Inr claimed)
      else
        (case XAutoClaim (client q) (streamName q) (groupName q) consumerName minIdle start
                (count - int (length claimed)) s of
           (s', Inl err) \<Rightarrow>
             if err = RedisNil then Some (s', Inr claimed)
             else Some (s', Inl (QClaim consumerName err))
         | (s', Inr (rawMessages, nxt)) \<Rightarrow>
             (case parseStreamMessages rawMessages of
                Inl err \<Rightarrow> Some (s', Inl err)
              | Inr parsed \<Rightarrow>
                  if nxt = '''' \<or> nxt = ''0-0'' \<or> nxt = start then Some (s', Inr (claimed @ parsed))
                  else claimLoop q consumerName minIdle count (claimed @ parsed) nxt s')))"

definition ClaimPending ::
  "'s RedisStreamQueue \<Rightarrow> string \<Rightarrow> int \<Rightarrow> int \<Rightarrow> 's \<Rightarrow>
   ('s \<times> (queue_error + StreamMessage list)) option" where
  "ClaimPending q consumerName minIdle count s =
     (if consumerName = '''' then Some (s, Inl QConsumerRequired)
      else if minIdle \<le> 0 then Some (s, Inl QMinIdle)
      else if count \<le> 0 then Some (s, Inl QClaimCount)
      else claimLoop q consumerName minIdle count [] ''0-0'' s)"

definition Ack :: "'s RedisStreamQueue \<Rightarrow> string \<Rightarrow> 's \<Rightarrow> 's \<times> queue_error option" where
  "Ack q redisID s =
     (if redisID = '''' then (s, Some QRedisIDRequired)
      else
        (case XAck (client q) (streamName q) (groupName q) redisID s of
           (s', Some err) \<Rightarrow> (s', Some (QAck redisID err))
         | (s', None) \<Rightarrow> (s', None)))"

fun consumerGroupLag :: "XInfoGroup list \<Rightarrow> string \<Rightarrow> int \<times> bool" where
  "consumerGroupLag [] grp = (0, False)"
| "consumerGroupLag (g # gs) grp =
     (if xi_Name g = grp \<and> xi_Lag g \<ge> 0 then (xi_Lag g, True) else consumerGroupLag gs grp)"

definition StreamLength :: "'s RedisStreamQueue \<Rightarrow> 's \<Rightarrow> 's \<times> (queue_error + int)" where
  "StreamLength q s =
     (case XLen (client q) (streamName q) s of
        (s', Inl err) \<Rightarrow> (s', Inl (QLength (streamName q) err))
      | (s', Inr len) \<Rightarrow> (s', Inr len))"

definition PendingCount :: "'s RedisStreamQueue \<Rightarrow> 's \<Rightarrow> 's \<times> (queue_error + int)" where
  "PendingCount q s =
     (case XPending (client q) (streamName q) (groupName q) s of
        (s', Inl err) \<Rightarrow> (s', Inl (QPending (streamName q) (groupName q) err))
      | (s', Inr n) \<Rightarrow> (s', Inr n))"

definition QueueDepth :: "'s RedisStreamQueue \<Rightarrow> 's \<Rightarrow> 's \<times> (queue_error + int)" where
  "QueueDepth q s =
     (let (s1, groups) = XInfoGroups (client q) (streamName q) s;
          fallback = (let (s2, len) = StreamLength q s1 in
            (s2, case len of
               Inl lengthErr \<Rightarrow>
                 (case groups of
                    Inl err \<Rightarrow> Inl (QLag (streamName q) (groupName q) err lengthErr)
                  | Inr _ \<Rightarrow> Inl lengthErr)
             | Inr n \<Rightarrow> Inr n))
      in case groups of
           Inl _ \<Rightarrow> fallback
         | Inr gs \<Rightarrow>
             (case consumerGroupLag gs (groupName q) of
                (lag, True) \<Rightarrow> (s1, Inr lag)
              | (_, False) \<Rightarrow> fallback))"

end
