(* ===== verification/Redis.thy ===== *)
theory Redis
  imports Queue
begin

text \<open>
  What the queue relies on of Redis Streams: a stream with one consumer group, as the position
  up to which entries were delivered and the list of delivered entries that are not yet
  acknowledged, and the laws of the commands on it (\<open>redis_group\<close>).  A command that reports an
  error may or may not have taken effect.  Entries are neither trimmed nor deleted, since no
  code of the repository does so.  \<open>redis_sim\<close> is an executable server that obeys the laws,
  with a script of faults.
\<close>

section \<open>A stream and its group\<close>

record group_state =
  entries :: "(string \<times> fields) list"
  delivered :: nat
  pel :: "string \<rightharpoonup> string"

definition entry_ids :: "group_state \<Rightarrow> string set" where
  "entry_ids g = fst ` set (entries g)"

definition string_fields :: "fields \<Rightarrow> bool" where
  "string_fields f \<longleftrightarrow> (\<forall>v \<in> ran f. \<exists>x. v = AnyString x)"

definition add_entry :: "string \<Rightarrow> fields \<Rightarrow> group_state \<Rightarrow> group_state" where
  "add_entry i f g = g\<lparr>entries := entries g @ [(i, f)]\<rparr>"

text \<open>The next entries for a read, and their delivery to a consumer.\<close>

definition next_entries :: "nat \<Rightarrow> group_state \<Rightarrow> (string \<times> fields) list" where
  "next_entries n g = take n (drop (delivered g) (entries g))"

definition assign :: "string \<Rightarrow> string list \<Rightarrow> (string \<rightharpoonup> string) \<Rightarrow> (string \<rightharpoonup> string)" where
  "assign consumer ids p = (\<lambda>i. if i \<in> set ids then Some consumer else p i)"

definition deliver :: "string \<Rightarrow> nat \<Rightarrow> group_state \<Rightarrow> group_state" where
  "deliver consumer n g = g\<lparr>delivered := delivered g + length (next_entries n g),
     pel := assign consumer (map fst (next_entries n g)) (pel g)\<rparr>"

definition acknowledge :: "string \<Rightarrow> group_state \<Rightarrow> group_state" where
  "acknowledge i g = g\<lparr>pel := (pel g)(i := None)\<rparr>"

definition xmessage :: "string \<times> fields \<Rightarrow> XMessage" where
  "xmessage e = \<lparr>xm_ID = fst e, xm_Values = snd e\<rparr>"

section \<open>The laws\<close>

locale redis_group =
  fixes c :: "'s redis_client" and stream :: string and grp_name :: string
    and group :: "'s \<Rightarrow> group_state"
  assumes add_ok: "XAdd c stream vals s = (s', Inr i) \<Longrightarrow> string_fields vals \<Longrightarrow>
      group s' = add_entry i vals (group s) \<and> i \<notin> entry_ids (group s) \<and> i \<noteq> ''''"
    and add_err: "XAdd c stream vals s = (s', Inl e) \<Longrightarrow> string_fields vals \<Longrightarrow>
      group s' = group s \<or>
      (\<exists>i. group s' = add_entry i vals (group s) \<and> i \<notin> entry_ids (group s) \<and> i \<noteq> '''')"
    and read_ok: "XReadGroup c grp_name consumer stream count block s = (s', Inr streams) \<Longrightarrow>
      0 < count \<Longrightarrow> \<exists>n. int n \<le> count \<and> next_entries n (group s) \<noteq> [] \<and>
        group s' = deliver consumer n (group s) \<and>
        streams = [\<lparr>xs_Stream = stream, xs_Messages = map xmessage (next_entries n (group s))\<rparr>]"
    and read_nil: "XReadGroup c grp_name consumer stream count block s = (s', Inl RedisNil) \<Longrightarrow>
      0 < count \<Longrightarrow> group s' = group s"
    and read_err: "XReadGroup c grp_name consumer stream count block s = (s', Inl e) \<Longrightarrow>
      0 < count \<Longrightarrow> \<exists>n. int n \<le> count \<and> group s' = deliver consumer n (group s)"
    and claim_ok: "XAutoClaim c stream grp_name consumer minIdle start count s = (s', Inr (msgs, nxt)) \<Longrightarrow>
      0 < count \<Longrightarrow> int (length msgs) \<le> count \<and>
        (\<forall>m \<in> set msgs. (xm_ID m, xm_Values m) \<in> set (entries (group s)) \<and>
           xm_ID m \<in> dom (pel (group s))) \<and>
        group s' = (group s)\<lparr>pel := assign consumer (map xm_ID msgs) (pel (group s))\<rparr>"
    and claim_err: "XAutoClaim c stream grp_name consumer minIdle start count s = (s', Inl e) \<Longrightarrow>
      0 < count \<Longrightarrow> \<exists>p. group s' = (group s)\<lparr>pel := p\<rparr> \<and> dom p = dom (pel (group s))"
    and ack_ok: "XAck c stream grp_name i s = (s', None) \<Longrightarrow> group s' = acknowledge i (group s)"
    and ack_err: "XAck c stream grp_name i s = (s', Some e) \<Longrightarrow>
      group s' = group s \<or> group s' = acknowledge i (group s)"
    and info_frame: "group (fst (XInfoGroups c stream s)) = group s"
    and len_ok: "XLen c stream s = (s', r) \<Longrightarrow> group s' = group s \<and>
      pred_sum (\<lambda>_. True) (\<lambda>n. n = int (length (entries (group s)))) r"
    and pending_ok: "XPending c stream grp_name s = (s', r) \<Longrightarrow> group s' = group s \<and>
      pred_sum (\<lambda>_. True) (\<lambda>n. n = int (card (dom (pel (group s))))) r"

text \<open>
  The cursor of \<open>XAUTOCLAIM\<close> moves forward through the pending entries: unless the scan is
  complete, fewer of them are ahead of the next cursor.
\<close>

locale redis_cursor = redis_group c stream grp_name group
  for c :: "'s redis_client" and stream grp_name group +
  fixes ahead :: "string \<Rightarrow> 's \<Rightarrow> nat"
  assumes cursor_moves:
    "XAutoClaim c stream grp_name consumer minIdle start count s = (s', Inr (msgs, nxt)) \<Longrightarrow>
     nxt \<noteq> ''0-0'' \<Longrightarrow> ahead nxt s' < ahead start s"

section \<open>An executable server\<close>

record redis_sim =
  rs_group :: group_state
  rs_faults :: "bool list"

definition rs_start :: redis_sim where
  "rs_start = \<lparr>rs_group = \<lparr>entries = [], delivered = 0, pel = Map.empty\<rparr>, rs_faults = []\<rparr>"

definition rs_tick :: "redis_sim \<Rightarrow> redis_sim" where
  "rs_tick s = s\<lparr>rs_faults := tl (rs_faults s)\<rparr>"

text \<open>Runs a command unless the script says that it fails.\<close>

definition rs_run :: "redis_sim \<Rightarrow> (redis_sim \<times> (redis_error + 'a)) \<Rightarrow> redis_sim \<times> (redis_error + 'a)" where
  "rs_run s result =
     (case rs_faults s of True # _ \<Rightarrow> (rs_tick s, Inl (RedisError ''connection refused'')) | _ \<Rightarrow> result)"

definition rs_set :: "redis_sim \<Rightarrow> group_state \<Rightarrow> redis_sim" where
  "rs_set s g = (rs_tick s)\<lparr>rs_group := g\<rparr>"

text \<open>A new id is longer than every other.\<close>

definition rs_new_id :: "group_state \<Rightarrow> string" where
  "rs_new_id g = replicate (Suc (sum_list (map (length \<circ> fst) (entries g)))) CHR ''1''"

definition rs_ahead :: "string \<Rightarrow> group_state \<Rightarrow> (string \<times> fields) list" where
  "rs_ahead start g =
     filter (\<lambda>e. pel g (fst e) \<noteq> None)
       (if start = ''0-0'' then entries g else dropWhile (\<lambda>e. fst e \<noteq> start) (entries g))"

definition redis_server :: "redis_sim redis_client" where
  "redis_server =
     \<lparr>XGroupCreateMkStream = (\<lambda>stream grp from s. (s, Some (RedisError ''BUSYGROUP group exists''))),
      XAdd = (\<lambda>stream vals s. rs_run s
        (let i = rs_new_id (rs_group s) in (rs_set s (add_entry i vals (rs_group s)), Inr i))),
      XReadGroup = (\<lambda>grp consumer stream count block s. rs_run s
        (let es = next_entries (nat count) (rs_group s) in
         if es = [] then (rs_tick s, Inl RedisNil)
         else (rs_set s (deliver consumer (nat count) (rs_group s)),
               Inr [\<lparr>xs_Stream = stream, xs_Messages = map xmessage es\<rparr>]))),
      XAutoClaim = (\<lambda>stream grp consumer minIdle start count s. rs_run s
        (let cand = rs_ahead start (rs_group s); es = take (nat count) cand;
             rest = drop (nat count) cand
         in (rs_set s ((rs_group s)\<lparr>pel := assign consumer (map fst es) (pel (rs_group s))\<rparr>),
             Inr (map xmessage es,
               if rest = [] \<or> length cand \<le> length (rs_ahead (fst (hd rest)) (rs_group s))
               then ''0-0'' else fst (hd rest))))),
      XAck = (\<lambda>stream grp i s.
        case rs_run s (rs_set s (acknowledge i (rs_group s)), Inr ()) of
          (s', Inl e) \<Rightarrow> (s', Some e) | (s', Inr _) \<Rightarrow> (s', None)),
      XInfoGroups = (\<lambda>stream s. rs_run s (rs_tick s, Inr [])),
      XLen = (\<lambda>stream s. rs_run s (rs_tick s, Inr (int (length (entries (rs_group s)))))),
      XPending = (\<lambda>stream grp s. rs_run s (rs_tick s, Inr (int (card (dom (pel (rs_group s))))))),
      HasErrorPrefix = (\<lambda>e p. case e of RedisError m \<Rightarrow> prefix p m | _ \<Rightarrow> False)\<rparr>"

section \<open>The server obeys the laws\<close>

lemma rs_group_simps [simp]: "rs_group (rs_tick s) = rs_group s" "rs_group (rs_set s g) = g"
  by (simp_all add: rs_tick_def rs_set_def)

lemma rs_new_id_fresh: "rs_new_id g \<notin> entry_ids g"
proof
  assume "rs_new_id g \<in> entry_ids g"
  then obtain f where "(rs_new_id g, f) \<in> set (entries g)" by (auto simp: entry_ids_def)
  then have "length (rs_new_id g) \<le> sum_list (map (length \<circ> fst) (entries g))"
    by (intro member_le_sum_list) (auto simp: image_iff intro!: bexI)
  then show False by (simp add: rs_new_id_def)
qed

lemma rs_new_id_nonempty: "rs_new_id g \<noteq> []"
  by (simp add: rs_new_id_def)

lemma deliver_zero [simp]: "deliver consumer 0 g = g"
  by (simp add: deliver_def next_entries_def assign_def)

lemma set_next_entries: "set (next_entries n g) \<subseteq> set (entries g)"
  by (metis next_entries_def order_trans set_drop_subset set_take_subset)

lemma rs_ahead_pending:
  assumes "e \<in> set (rs_ahead start g)"
  shows "e \<in> set (entries g)" and "fst e \<in> dom (pel g)"
  using assms by (auto simp: rs_ahead_def dest: set_dropWhileD split: if_splits)

lemma dom_assign: "dom (assign consumer ids p) = set ids \<union> dom p"
  by (auto simp: assign_def split: if_splits)

lemma rs_ahead_assign:
  assumes "set ids \<subseteq> dom (pel g)"
  shows "rs_ahead x (g\<lparr>pel := assign consumer ids (pel g)\<rparr>) = rs_ahead x g"
proof -
  have "assign consumer ids (pel g) i \<noteq> None \<longleftrightarrow> pel g i \<noteq> None" for i
    using assms by (auto simp: assign_def)
  then show ?thesis by (simp add: rs_ahead_def del: not_None_eq)
qed

interpretation sim_redis: redis_cursor redis_server stream grp_name rs_group
  "\<lambda>start s. length (rs_ahead start (rs_group s))"
proof unfold_locales
  fix vals s s' i
  assume "XAdd redis_server stream vals s = (s', Inr i)"
  then show "rs_group s' = add_entry i vals (rs_group s) \<and> i \<notin> entry_ids (rs_group s) \<and> i \<noteq> ''''"
    using rs_new_id_fresh [of "rs_group s"] rs_new_id_nonempty [of "rs_group s"]
    by (auto simp: redis_server_def Let_def rs_run_def split: list.splits bool.splits)
next
  fix vals s s' e
  assume "XAdd redis_server stream vals s = (s', Inl e)"
  then show "rs_group s' = rs_group s \<or> (\<exists>i. rs_group s' = add_entry i vals (rs_group s) \<and>
      i \<notin> entry_ids (rs_group s) \<and> i \<noteq> '''')"
    by (auto simp: redis_server_def Let_def rs_run_def split: list.splits bool.splits)
next
  fix consumer count block s s' streams
  assume "XReadGroup redis_server grp_name consumer stream count block s = (s', Inr streams)" "0 < count"
  then show "\<exists>n. int n \<le> count \<and> next_entries n (rs_group s) \<noteq> [] \<and>
      rs_group s' = deliver consumer n (rs_group s) \<and>
      streams = [\<lparr>xs_Stream = stream, xs_Messages = map xmessage (next_entries n (rs_group s))\<rparr>]"
    by (intro exI [of _ "nat count"])
       (auto simp: redis_server_def Let_def rs_run_def split: list.splits bool.splits if_splits)
next
  fix consumer count block s s' e
  assume "XReadGroup redis_server grp_name consumer stream count block s = (s', Inl e)" "0 < count"
  then show "\<exists>n. int n \<le> count \<and> rs_group s' = deliver consumer n (rs_group s)"
    by (intro exI [of _ 0])
       (auto simp: redis_server_def Let_def rs_run_def split: list.splits bool.splits if_splits)
next
  fix consumer minIdle start count s s' msgs nxt
  assume *: "XAutoClaim redis_server stream grp_name consumer minIdle start count s = (s', Inr (msgs, nxt))"
    "0 < count"
  let ?es = "take (nat count) (rs_ahead start (rs_group s))"
  have "msgs = map xmessage ?es \<and>
      rs_group s' = (rs_group s)\<lparr>pel := assign consumer (map fst ?es) (pel (rs_group s))\<rparr>"
    using *(1) by (auto simp: redis_server_def Let_def rs_run_def split: list.splits bool.splits)
  then show "int (length msgs) \<le> count \<and>
      (\<forall>m \<in> set msgs. (xm_ID m, xm_Values m) \<in> set (entries (rs_group s)) \<and>
        xm_ID m \<in> dom (pel (rs_group s))) \<and>
      rs_group s' = (rs_group s)\<lparr>pel := assign consumer (map xm_ID msgs) (pel (rs_group s))\<rparr>"
    using *(2) rs_ahead_pending [OF in_set_takeD, of _ "nat count" start "rs_group s"]
    by (auto simp: xmessage_def comp_def)
next
  fix consumer minIdle start count s s' msgs nxt
  assume "XAutoClaim redis_server stream grp_name consumer minIdle start count s = (s', Inr (msgs, nxt))"
    and "nxt \<noteq> ''0-0''"
  moreover have "rs_ahead x (g\<lparr>pel := assign consumer (map fst (take n (rs_ahead start g))) (pel g)\<rparr>) =
      rs_ahead x g" for x g n
    using rs_ahead_pending(2) [OF in_set_takeD, of _ n start g] by (intro rs_ahead_assign) auto
  ultimately show "length (rs_ahead nxt (rs_group s')) < length (rs_ahead start (rs_group s))"
    by (auto simp: redis_server_def Let_def rs_run_def split: list.splits bool.splits if_splits)
next
  fix consumer minIdle start count s s' e
  assume "XAutoClaim redis_server stream grp_name consumer minIdle start count s = (s', Inl e)"
  then show "\<exists>p. rs_group s' = (rs_group s)\<lparr>pel := p\<rparr> \<and> dom p = dom (pel (rs_group s))"
    by (intro exI [of _ "pel (rs_group s)"])
       (auto simp: redis_server_def Let_def rs_run_def split: list.splits bool.splits)
qed (auto simp: redis_server_def Let_def rs_run_def split: list.splits bool.splits if_splits)

end
