(* ===== verification/Queue_Properties.thy ===== *)
theory Queue_Properties
  imports Redis
begin

text \<open>
  Theorems about the queue adapter: the wire format loses nothing, reading never loses an entry
  (whatever fails, a delivered entry is on the pending list), claiming returns, respects its
  limit and keeps everything pending, and one malformed entry makes a whole batch fail.
\<close>

section \<open>The wire format\<close>

lemmas field_defs = fieldEventID_def fieldOrderID_def fieldStatus_def fieldTimestamp_def fieldPayload_def

lemma bindE_simps [simp]: "bindE (Inl e) k = Inl e" "bindE (Inr a) k = k a"
  by (simp_all add: bindE_def)

lemma bindE_Inr_iff: "bindE r k = Inr b \<longleftrightarrow> (\<exists>a. r = Inr a \<and> k a = Inr b)"
  by (cases r) simp_all

lemma relabel_Inr_iff [simp]:
  "(case r of Inl e \<Rightarrow> Inl (f e) | Inr p \<Rightarrow> Inr p) = Inr x \<longleftrightarrow> r = Inr x"
  "(case m of None \<Rightarrow> Inl e' | Some t \<Rightarrow> Inr t) = Inr y \<longleftrightarrow> m = Some y"
  by (simp_all split: sum.split option.split)

lemma normalizePayload_idem:
  assumes "normalizePayload p = Inr p'"
  shows "normalizePayload p' = Inr p'" and "p' \<noteq> ''''"
    and "p' = (if p = '''' then ''{}'' else p)" and "unmarshal_object p' = Inr True"
  using assms by (auto simp: normalizePayload_def split: if_splits sum.splits)

lemma formatRFC3339Nano_nonempty: "formatRFC3339Nano t \<noteq> []"
  by (simp add: formatRFC3339Nano_def Let_def split: prod.split)

lemma eventFields_Inr:
  assumes "eventFields ev = Inr vals"
  obtains p where "normalizePayload (Payload ev) = Inr p"
    and "EventID ev \<noteq> ''''" "OrderID ev \<noteq> ''''" "Status ev \<noteq> ''''" "Timestamp ev \<noteq> 0"
    and "vals = [fieldEventID \<mapsto> AnyString (EventID ev), fieldOrderID \<mapsto> AnyString (OrderID ev),
      fieldStatus \<mapsto> AnyString (Status ev), fieldTimestamp \<mapsto> AnyString (formatRFC3339Nano (Timestamp ev)),
      fieldPayload \<mapsto> AnyString p]"
  using assms by (auto simp: eventFields_def IsZero_def split: if_splits sum.splits)

lemma string_fields_upd [simp]:
  "string_fields Map.empty" "string_fields f \<Longrightarrow> string_fields (f(k \<mapsto> AnyString x))"
  by (auto simp: string_fields_def ran_def split: if_splits)

lemma string_eventFields: "eventFields ev = Inr vals \<Longrightarrow> string_fields vals"
  by (erule eventFields_Inr) simp

text \<open>What the consumer gets to see of an event: an absent payload has become an empty object.\<close>

definition received :: "OrderEvent \<Rightarrow> OrderEvent" where
  "received ev = ev\<lparr>Payload := (if Payload ev = '''' then ''{}'' else Payload ev)\<rparr>"

lemma parse_eventFields:
  assumes "eventFields ev = Inr vals" and "four_digit_year (Timestamp ev)"
  shows "parseStreamMessage \<lparr>xm_ID = i, xm_Values = vals\<rparr> =
    Inr \<lparr>RedisID = i, Event = received ev, Attempts = 0\<rparr>"
  using assms(1)
proof (rule eventFields_Inr)
  fix p
  assume p: "normalizePayload (Payload ev) = Inr p"
    and ids: "EventID ev \<noteq> ''''" "OrderID ev \<noteq> ''''" "Status ev \<noteq> ''''" "Timestamp ev \<noteq> 0"
    and vals: "vals = [fieldEventID \<mapsto> AnyString (EventID ev), fieldOrderID \<mapsto> AnyString (OrderID ev),
      fieldStatus \<mapsto> AnyString (Status ev), fieldTimestamp \<mapsto> AnyString (formatRFC3339Nano (Timestamp ev)),
      fieldPayload \<mapsto> AnyString p]"
  note norm = normalizePayload_idem [OF p]
  show ?thesis
    using ids norm parse_format [OF assms(2)] formatRFC3339Nano_nonempty [of "Timestamp ev"]
    by (simp add: vals parseStreamMessage_def requiredStringField_def field_defs received_def Let_def)
qed

text \<open>
  C14: The wire format loses nothing.  Every event the producer can encode, with a time in the
  years 1 to 9999, is decoded by the consumer to the same event with the id of its entry; only
  an absent payload has become the empty JSON object.
\<close>

theorem message_roundtrip:
  assumes "eventFields ev = Inr vals" and "four_digit_year (Timestamp ev)"
  shows "parseStreamMessage \<lparr>xm_ID = i, xm_Values = vals\<rparr> =
    Inr \<lparr>RedisID = i, Event = received ev, Attempts = 0\<rparr>"
  using assms by (rule parse_eventFields)

definition demo_sale :: OrderEvent where
  "demo_sale = \<lparr>EventID = ''e1'', OrderID = ''o1'', Status = StatusPaid,
     Timestamp = 63871459200123450000, Payload = ''''\<rparr>"

lemma demo_sale_fields:
  "\<exists>vals. eventFields demo_sale = Inr vals" "four_digit_year (Timestamp demo_sale)"
  by (simp_all add: eventFields_def demo_sale_def IsZero_def normalizePayload_def four_digit_year_def
      days_before_year_def second_ns_def)

theorem message_roundtrip_witness:
  "\<exists>vals. eventFields demo_sale = Inr vals \<and>
     parseStreamMessage \<lparr>xm_ID = ''1-0'', xm_Values = vals\<rparr> =
       Inr \<lparr>RedisID = ''1-0'', Event = received demo_sale, Attempts = 0\<rparr>"
  using demo_sale_fields message_roundtrip by blast

text \<open>
  C29: A decoded message is well formed: its event id, order id and status are not empty and its
  payload is a JSON object, so that \<open>validateEvent\<close> can only refuse it for its status or a zero
  time.
\<close>

theorem parsed_message_well_formed:
  assumes "parseStreamMessage m = Inr msg"
  shows "RedisID msg = xm_ID m \<and> EventID (Event msg) \<noteq> '''' \<and> OrderID (Event msg) \<noteq> '''' \<and>
    Status (Event msg) \<noteq> '''' \<and> unmarshal_object (Payload (Event msg)) = Inr True \<and> Attempts msg = 0"
proof -
  have req: "x \<noteq> ''''" if "requiredStringField vals name = Inr x" for vals name x
    using that by (auto simp: requiredStringField_def split: option.splits any.splits if_splits)
  from assms show ?thesis
    by (auto simp: parseStreamMessage_def Let_def bindE_Inr_iff dest!: req
        dest: normalizePayload_idem(4))
qed

theorem parsed_message_well_formed_witness:
  "\<exists>msg vals. eventFields demo_sale = Inr vals \<and>
     parseStreamMessage \<lparr>xm_ID = ''1-0'', xm_Values = vals\<rparr> = Inr msg \<and> OrderID (Event msg) \<noteq> ''''"
proof -
  obtain vals where vals: "eventFields demo_sale = Inr vals" using demo_sale_fields by blast
  from parsed_message_well_formed [OF parse_eventFields [OF vals demo_sale_fields(2), of "''1-0''"]]
    parse_eventFields [OF vals demo_sale_fields(2), of "''1-0''"] vals
  show ?thesis by blast
qed

section \<open>Batches\<close>

definition decodes :: "string \<times> fields \<Rightarrow> StreamMessage \<Rightarrow> bool" where
  "decodes e msg \<longleftrightarrow> parseStreamMessage (xmessage e) = Inr msg"

lemma parseStreamMessages_iff:
  "parseStreamMessages ms = Inr msgs \<longleftrightarrow> list_all2 (\<lambda>m msg. parseStreamMessage m = Inr msg) ms msgs"
proof (induction ms arbitrary: msgs)
  case (Cons m ms)
  show ?case
    by (cases "parseStreamMessage m"; cases msgs) (auto simp: bindE_Inr_iff Cons)
qed auto

lemma parse_batch_iff: "parseStreamMessages (map xmessage es) = Inr msgs \<longleftrightarrow> list_all2 decodes es msgs"
  by (simp add: parseStreamMessages_iff decodes_def [abs_def] list_all2_map1)

lemma decodes_id: "decodes e msg \<Longrightarrow> RedisID msg = fst e"
  by (auto simp: decodes_def parseStreamMessage_def xmessage_def Let_def bindE_Inr_iff)

lemma decodes_ids: "list_all2 decodes es msgs \<Longrightarrow> map RedisID msgs = map fst es"
  by (induction rule: list_all2_induct) (simp_all add: decodes_id)

lemma parseStreams_one:
  "parseStreams [\<lparr>xs_Stream = stream, xs_Messages = ms\<rparr>] [] = parseStreamMessages ms"
  by (cases "parseStreamMessages ms") simp_all

section \<open>The adapter on a stream\<close>

context redis_group
begin

abbreviation queue :: "'s RedisStreamQueue" where
  "queue \<equiv> NewRedisStreamQueue c stream grp_name"

lemma queue_sel [simp]: "client queue = c" "streamName queue = stream" "groupName queue = grp_name"
  by (simp_all add: NewRedisStreamQueue_def)

lemma Publish_ok:
  assumes "Publish queue ev s = (s', Inr i)"
  obtains vals where "eventFields ev = Inr vals" and "group s' = add_entry i vals (group s)"
    and "i \<notin> entry_ids (group s)" and "i \<noteq> ''''"
  using assms add_ok [OF _ string_eventFields]
  by (auto simp: Publish_def split: sum.splits prod.splits)

lemma ReadGroup_ok:
  assumes "ReadGroup queue consumer count block s = (s', Inr msgs)"
  shows "\<exists>n. int n \<le> count \<and> group s' = deliver consumer n (group s) \<and>
    list_all2 decodes (next_entries n (group s)) msgs"
proof -
  have count: "0 < count" using assms by (auto simp: ReadGroup_def split: if_splits)
  consider (nil) "XReadGroup c grp_name consumer stream count block s = (s', Inl RedisNil)" "msgs = []"
    | (ok) streams where "XReadGroup c grp_name consumer stream count block s = (s', Inr streams)"
        "parseStreams streams [] = Inr msgs"
    using assms by (auto simp: ReadGroup_def split: if_splits prod.splits sum.splits)
  then show ?thesis
  proof cases
    case nil
    with read_nil [OF nil(1) count] count show ?thesis
      by (intro exI [of _ 0]) (simp add: next_entries_def)
  next
    case ok
    from read_ok [OF ok(1) count] ok(2) show ?thesis
      by (auto simp: parse_batch_iff simp del: parseStreams.simps simp: parseStreams_one)
  qed
qed

lemma ReadGroup_any:
  assumes "ReadGroup queue consumer count block s = (s', r)"
  shows "\<exists>n. group s' = deliver consumer n (group s)"
proof (cases "consumer = '''' \<or> count \<le> 0")
  case True
  with assms show ?thesis by (intro exI [of _ 0]) (auto simp: ReadGroup_def split: if_splits)
next
  case False
  with assms obtain x where "XReadGroup c grp_name consumer stream count block s = (s', x)"
    by (auto simp: ReadGroup_def split: if_splits prod.splits sum.splits)
  with False read_ok [of consumer count block s s'] read_err [of consumer count block s s']
  show ?thesis by (cases x) (force)+
qed

lemma Ack_ok: "Ack queue i s = (s', None) \<Longrightarrow> group s' = acknowledge i (group s) \<and> i \<noteq> ''''"
  by (auto simp: Ack_def dest: ack_ok split: if_splits prod.splits option.splits)

lemma Ack_any:
  "Ack queue i s = (s', r) \<Longrightarrow> group s' = group s \<or> group s' = acknowledge i (group s)"
  by (auto simp: Ack_def dest: ack_ok ack_err split: if_splits prod.splits option.splits)

end

text \<open>A claim changes owners only, and hands out entries that stay pending.\<close>

definition reowned :: "group_state \<Rightarrow> group_state \<Rightarrow> bool" where
  "reowned g g' \<longleftrightarrow> (\<exists>p. g' = g\<lparr>pel := p\<rparr> \<and> dom p = dom (pel g))"

lemma reowned_refl [simp]: "reowned g g"
  unfolding reowned_def by (intro exI [of _ "pel g"]) simp

lemma reowned_trans: "reowned g g' \<Longrightarrow> reowned g' g'' \<Longrightarrow> reowned g g''"
  by (auto simp: reowned_def)

lemma reowned_sel:
  assumes "reowned g g'"
  shows "entries g' = entries g" "delivered g' = delivered g" "dom (pel g') = dom (pel g)"
proof -
  from assms obtain p where "g' = g\<lparr>pel := p\<rparr>" "dom p = dom (pel g)" by (auto simp: reowned_def)
  then show "entries g' = entries g" "delivered g' = delivered g" "dom (pel g') = dom (pel g)"
    by simp_all
qed

lemma reowned_assign:
  assumes "set ids \<subseteq> dom (pel g)"
  shows "reowned g (g\<lparr>pel := assign consumer ids (pel g)\<rparr>)"
  unfolding reowned_def
  using assms by (intro exI [of _ "assign consumer ids (pel g)"]) (simp add: dom_assign Un_absorb1)

definition claimed_from :: "group_state \<Rightarrow> StreamMessage list \<Rightarrow> bool" where
  "claimed_from g msgs \<longleftrightarrow>
     (\<forall>msg \<in> set msgs. RedisID msg \<in> dom (pel g) \<and> (\<exists>e \<in> set (entries g). decodes e msg))"

context redis_cursor
begin

lemma claim_step:
  assumes "XAutoClaim c stream grp_name consumer minIdle start count s = (s', Inr (ms, nxt))"
    and "0 < count" and "parseStreamMessages ms = Inr msgs"
  shows "reowned (group s) (group s') \<and> claimed_from (group s) msgs \<and> int (length msgs) \<le> count"
proof -
  note ok = claim_ok [OF assms(1,2)]
  have all: "list_all2 (\<lambda>m msg. parseStreamMessage m = Inr msg) ms msgs"
    using assms(3) by (simp add: parseStreamMessages_iff)
  have "RedisID msg \<in> dom (pel (group s)) \<and> (\<exists>e \<in> set (entries (group s)). decodes e msg)"
    if msg: "msg \<in> set msgs" for msg
  proof -
    obtain k where k: "k < length ms" "msgs ! k = msg"
      using msg list_all2_lengthD [OF all] by (auto simp: in_set_conv_nth)
    define m where "m = ms ! k"
    have m: "m \<in> set ms" "parseStreamMessage m = Inr msg"
      using k list_all2_nthD [OF all, of k] by (simp_all add: m_def)
    then have "(xm_ID m, xm_Values m) \<in> set (entries (group s))" "xm_ID m \<in> dom (pel (group s))"
      using ok by auto
    moreover have d: "decodes (xm_ID m, xm_Values m) msg"
      using m(2) by (cases m) (simp add: decodes_def xmessage_def)
    ultimately show ?thesis using decodes_id [OF d] by auto
  qed
  moreover have "reowned (group s) (group s')"
    using ok by (auto intro!: reowned_assign)
  ultimately show ?thesis
    using ok list_all2_lengthD [OF all] by (auto simp: claimed_from_def)
qed

lemma claimed_from_reowned: "reowned g g' \<Longrightarrow> claimed_from g' msgs = claimed_from g msgs"
  by (auto simp: claimed_from_def reowned_sel)

lemma claimLoop_returns:
  assumes "claimed_from (group s) claimed" and "int (length claimed) \<le> count"
  shows "\<exists>s' r. claimLoop queue consumer minIdle count claimed start s = Some (s', r) \<and>
    reowned (group s) (group s') \<and>
    (\<forall>msgs. r = Inr msgs \<longrightarrow> claimed_from (group s) msgs \<and> int (length msgs) \<le> count)"
  using assms
proof (induction "ahead start s" arbitrary: s claimed start rule: less_induct)
  case less
  let ?rest = "count - int (length claimed)"
  note unfold = claimLoop.simps [of queue consumer minIdle count claimed start s]
  show ?case
  proof (cases "int (length claimed) < count")
    case False
    with less.prems show ?thesis by (simp add: unfold)
  next
    case True
    then have pos: "0 < ?rest" by simp
    obtain s1 x where run: "XAutoClaim c stream grp_name consumer minIdle start ?rest s = (s1, x)"
      by (meson surj_pair)
    show ?thesis
    proof (cases x)
      case (Inl e)
      with claim_err [of consumer minIdle start ?rest s s1 e] run pos
      have "reowned (group s) (group s1)" by (simp add: reowned_def)
      with True run Inl less.prems show ?thesis by (auto simp: unfold)
    next
      case (Inr y)
      obtain ms nxt where y: "y = (ms, nxt)" by (cases y)
      show ?thesis
      proof (cases "parseStreamMessages ms")
        case (Inl e)
        moreover have "reowned (group s) (group s1)"
          using claim_ok [of consumer minIdle start ?rest s s1 ms nxt] run Inr y pos
          by (auto intro!: reowned_assign)
        ultimately show ?thesis using True run Inr y by (auto simp: unfold)
      next
        case (Inr msgs)
        have step: "reowned (group s) (group s1)" "claimed_from (group s) msgs" "int (length msgs) \<le> ?rest"
          using claim_step [OF run [unfolded \<open>x = Inr y\<close> y] pos Inr] by simp_all
        have all: "claimed_from (group s) (claimed @ msgs)" "int (length (claimed @ msgs)) \<le> count"
          using less.prems step(2,3) by (auto simp: claimed_from_def)
        show ?thesis
        proof (cases "nxt = '''' \<or> nxt = ''0-0'' \<or> nxt = start")
          case True
          with \<open>int (length claimed) < count\<close> run \<open>x = Inr y\<close> y Inr step(1) all
          show ?thesis by (simp add: unfold)
        next
          case False
          then have "ahead nxt s1 < ahead start s"
            using cursor_moves [OF run [unfolded \<open>x = Inr y\<close> y]] by simp
          from less.hyps [OF this, of "claimed @ msgs"] all step(1)
          obtain s2 r where "claimLoop queue consumer minIdle count (claimed @ msgs) nxt s1 = Some (s2, r)"
              "reowned (group s1) (group s2)"
              "\<forall>msgs. r = Inr msgs \<longrightarrow> claimed_from (group s) msgs \<and> int (length msgs) \<le> count"
            by (auto simp: claimed_from_reowned)
          with False \<open>int (length claimed) < count\<close> run \<open>x = Inr y\<close> y Inr step(1) show ?thesis
            by (auto simp: unfold intro: reowned_trans)
        qed
      qed
    qed
  qed
qed

lemma ClaimPending_result:
  "\<exists>s' r. ClaimPending queue consumer minIdle count s = Some (s', r) \<and>
     reowned (group s) (group s') \<and>
     (\<forall>msgs. r = Inr msgs \<longrightarrow> claimed_from (group s) msgs \<and> int (length msgs) \<le> count)"
  using claimLoop_returns [of s "[]" count consumer minIdle "''0-0''"]
  by (auto simp: ClaimPending_def claimed_from_def)

end

section \<open>Nothing is lost in the stream\<close>

text \<open>
  A group in order: ids are unique, and only delivered entries are pending.  A delivered entry
  that is not pending has been acknowledged.
\<close>

definition delivered_ids :: "group_state \<Rightarrow> string list" where
  "delivered_ids g = map fst (take (delivered g) (entries g))"

definition group_ok :: "group_state \<Rightarrow> bool" where
  "group_ok g \<longleftrightarrow> distinct (map fst (entries g)) \<and> delivered g \<le> length (entries g) \<and>
     dom (pel g) \<subseteq> set (delivered_ids g)"

definition acked_ids :: "group_state \<Rightarrow> string set" where
  "acked_ids g = set (delivered_ids g) - dom (pel g)"

lemma delivered_ids_deliver:
  "delivered_ids (deliver consumer n g) = delivered_ids g @ map fst (next_entries n g)"
proof -
  let ?rest = "drop (delivered g) (entries g)"
  have "take (length (take n ?rest)) ?rest = take n ?rest"
    by (cases "n \<le> length ?rest") simp_all
  then have "take (delivered g + length (next_entries n g)) (entries g) =
      take (delivered g) (entries g) @ next_entries n g"
    by (simp only: take_add next_entries_def)
  then show ?thesis by (simp add: delivered_ids_def deliver_def)
qed

lemma group_ok_deliver:
  assumes "group_ok g"
  shows "group_ok (deliver consumer n g)" and "acked_ids (deliver consumer n g) = acked_ids g"
proof -
  have split: "map fst (entries g) = delivered_ids g @ map fst (drop (delivered g) (entries g))"
    unfolding delivered_ids_def by (metis append_take_drop_id map_append)
  have new: "set (map fst (next_entries n g)) \<subseteq> set (map fst (drop (delivered g) (entries g)))"
    unfolding next_entries_def set_map by (intro image_mono set_take_subset)
  have "set (delivered_ids g) \<inter> set (map fst (next_entries n g)) = {}"
    using assms new unfolding group_ok_def split distinct_append by blast
  then show "acked_ids (deliver consumer n g) = acked_ids g"
    unfolding acked_ids_def delivered_ids_deliver by (auto simp: deliver_def dom_assign)
  have dom: "dom (pel (deliver consumer n g)) = fst ` set (next_entries n g) \<union> dom (pel g)"
    by (simp add: deliver_def dom_assign)
  have "delivered (deliver consumer n g) \<le> length (entries g)"
    using assms by (auto simp: deliver_def next_entries_def group_ok_def)
  moreover have "dom (pel (deliver consumer n g)) \<subseteq> set (delivered_ids (deliver consumer n g))"
    using assms unfolding dom by (auto simp: delivered_ids_deliver group_ok_def)
  ultimately show "group_ok (deliver consumer n g)"
    using assms by (simp add: group_ok_def) (simp add: deliver_def)
qed

lemma group_ok_reowned:
  assumes "reowned g g'"
  shows "group_ok g' = group_ok g" and "acked_ids g' = acked_ids g" and "delivered_ids g' = delivered_ids g"
  using reowned_sel [OF assms] by (simp_all add: group_ok_def acked_ids_def delivered_ids_def)

lemma group_ok_acknowledge:
  assumes "group_ok g"
  shows "group_ok (acknowledge i g)" and "acked_ids (acknowledge i g) = acked_ids g \<union> ({i} \<inter> set (delivered_ids g))"
  using assms by (auto simp: group_ok_def acked_ids_def acknowledge_def delivered_ids_def)

lemma group_ok_add_entry:
  assumes "group_ok g" and "i \<notin> entry_ids g"
  shows "group_ok (add_entry i f g)" and "acked_ids (add_entry i f g) = acked_ids g"
  using assms by (auto simp: group_ok_def acked_ids_def add_entry_def delivered_ids_def entry_ids_def)

text \<open>
  C30: Reading loses nothing.  Whatever \<open>ReadGroup\<close> returns, an error included, no entry counts
  as acknowledged that was not before; and the messages of a successful read are the next
  undelivered entries in stream order, at most as many as asked for, all of them pending for
  the reader.
\<close>

theorem ReadGroup_loses_nothing:
  assumes "redis_group c stream grp_name grp" and "group_ok (grp s)"
    and "ReadGroup (NewRedisStreamQueue c stream grp_name) consumer count block s = (s', r)"
  shows "group_ok (grp s') \<and> entries (grp s') = entries (grp s) \<and>
    acked_ids (grp s') = acked_ids (grp s) \<and>
    (case r of Inl _ \<Rightarrow> True
     | Inr msgs \<Rightarrow> int (length msgs) \<le> count \<and>
         list_all2 decodes (next_entries (length msgs) (grp s)) msgs \<and>
         delivered (grp s') = delivered (grp s) + length msgs \<and>
         list_all (\<lambda>msg. pel (grp s') (RedisID msg) = Some consumer) msgs)"
proof -
  obtain n where n: "grp s' = deliver consumer n (grp s)"
    using redis_group.ReadGroup_any [OF assms(1,3)] by blast
  then have frame: "group_ok (grp s')" "entries (grp s') = entries (grp s)"
      "acked_ids (grp s') = acked_ids (grp s)"
    using group_ok_deliver [OF assms(2), of consumer n] by (simp_all add: deliver_def)
  show ?thesis
  proof (cases r)
    case (Inr msgs)
    obtain k where k: "int k \<le> count" "grp s' = deliver consumer k (grp s)"
        "list_all2 decodes (next_entries k (grp s)) msgs"
      using redis_group.ReadGroup_ok [OF assms(1) assms(3) [unfolded Inr]] by blast
    let ?es = "next_entries k (grp s)"
    have len: "length msgs = length ?es" using list_all2_lengthD [OF k(3)] by simp
    have "length ?es \<le> k" by (simp add: next_entries_def)
    moreover have "next_entries (length ?es) (grp s) = ?es"
      by (cases "k \<le> length (drop (delivered (grp s)) (entries (grp s)))")
         (simp_all add: next_entries_def)
    moreover have "pel (grp s') (RedisID msg) = Some consumer" if "msg \<in> set msgs" for msg
    proof -
      have "RedisID msg \<in> set (map fst ?es)" using that decodes_ids [OF k(3)] by (metis imageI set_map)
      with k(2) show ?thesis by (simp add: deliver_def assign_def)
    qed
    ultimately show ?thesis
      using Inr frame k len by (simp add: list_all_iff) (simp add: deliver_def)
  qed (use frame in simp)
qed

text \<open>
  C31: Claiming returns and keeps everything pending.  \<open>ClaimPending\<close> ends on every server whose
  scan cursor moves forward; it changes the owners of pending entries only, and hands out at
  most as many messages as asked for, each of them an entry that is still pending.
\<close>

theorem ClaimPending_keeps_pending:
  assumes "redis_cursor c stream grp_name grp ahead"
  shows "\<exists>s' r. ClaimPending (NewRedisStreamQueue c stream grp_name) consumer minIdle count s = Some (s', r) \<and>
    entries (grp s') = entries (grp s) \<and> delivered (grp s') = delivered (grp s) \<and>
    dom (pel (grp s')) = dom (pel (grp s)) \<and>
    (case r of Inl _ \<Rightarrow> True
     | Inr msgs \<Rightarrow> int (length msgs) \<le> count \<and>
         list_all (\<lambda>msg. RedisID msg \<in> dom (pel (grp s')) \<and>
           (\<exists>e \<in> set (entries (grp s)). decodes e msg)) msgs)"
proof -
  obtain s' r where run: "ClaimPending (NewRedisStreamQueue c stream grp_name) consumer minIdle count s = Some (s', r)"
      "reowned (grp s) (grp s')"
      "\<forall>msgs. r = Inr msgs \<longrightarrow> claimed_from (grp s) msgs \<and> int (length msgs) \<le> count"
    using redis_cursor.ClaimPending_result [OF assms, of consumer minIdle count s] by blast
  with reowned_sel [OF run(2)] show ?thesis
    by (intro exI [of _ s'] exI [of _ r])
       (auto simp: claimed_from_def list_all_iff split: sum.split)
qed

text \<open>The executable server with one published event, and the adapter on it.\<close>

definition demo_queue :: "redis_sim RedisStreamQueue" where
  "demo_queue = NewRedisStreamQueue redis_server ''order-events'' ''order-processors''"

definition demo_stream :: redis_sim where
  "demo_stream = fst (Publish demo_queue demo_sale rs_start)"

lemmas sim_group = sim_redis.redis_group_axioms [of "''order-events''" "''order-processors''"]
lemmas sim_cursor = sim_redis.redis_cursor_axioms [of "''order-events''" "''order-processors''"]

lemma demo_stream_entries:
  obtains vals where "eventFields demo_sale = Inr vals"
    and "rs_group demo_stream = \<lparr>entries = [(''1'', vals)], delivered = 0, pel = Map.empty\<rparr>"
    and "rs_faults demo_stream = []"
proof -
  obtain vals where "eventFields demo_sale = Inr vals" using demo_sale_fields by blast
  with that show thesis
    by (simp add: demo_stream_def demo_queue_def Publish_def NewRedisStreamQueue_def redis_server_def
        rs_run_def rs_start_def rs_set_def rs_tick_def rs_new_id_def add_entry_def Let_def)
qed

lemma demo_stream_ok: "group_ok (rs_group demo_stream)"
  by (rule demo_stream_entries) (simp add: group_ok_def)

theorem ReadGroup_loses_nothing_witness:
  "\<exists>s' r. ReadGroup demo_queue ''app-1'' 10 0 demo_stream = (s', r) \<and> group_ok (rs_group s') \<and>
     acked_ids (rs_group s') = acked_ids (rs_group demo_stream)"
proof -
  obtain s' r where run: "ReadGroup demo_queue ''app-1'' 10 0 demo_stream = (s', r)" by (meson surj_pair)
  from ReadGroup_loses_nothing [OF sim_group demo_stream_ok run [unfolded demo_queue_def]] run
  show ?thesis by blast
qed

theorem ClaimPending_keeps_pending_witness:
  "\<exists>s' r. ClaimPending demo_queue ''app-reclaimer'' 30 10 demo_stream = Some (s', r) \<and>
     dom (pel (rs_group s')) = dom (pel (rs_group demo_stream))"
  using ClaimPending_keeps_pending [OF sim_cursor, of "''app-reclaimer''" 30 10 demo_stream]
  unfolding demo_queue_def by blast

text \<open>
  C32: End to end through the stream.  An event that was published when everything before it had
  been delivered is what the next successful non-empty read returns: one message with the id
  \<open>Publish\<close> returned and the event as sent, for times in the years 1 to 9999.
\<close>

theorem published_event_is_read:
  assumes "redis_group c stream grp_name grp" and "group_ok (grp s)"
    and "delivered (grp s) = length (entries (grp s))" and "four_digit_year (Timestamp ev)"
    and "Publish (NewRedisStreamQueue c stream grp_name) ev s = (s1, Inr i)"
    and "ReadGroup (NewRedisStreamQueue c stream grp_name) consumer count block s1 = (s2, Inr msgs)"
    and "msgs \<noteq> []"
  shows "msgs = [\<lparr>RedisID = i, Event = received ev, Attempts = 0\<rparr>]"
proof -
  obtain vals where vals: "eventFields ev = Inr vals" and g1: "grp s1 = add_entry i vals (grp s)"
    by (rule redis_group.Publish_ok [OF assms(1,5)])
  obtain n where n: "list_all2 decodes (next_entries n (grp s1)) msgs"
    using redis_group.ReadGroup_ok [OF assms(1,6)] by blast
  have "next_entries n (grp s1) = take n [(i, vals)]"
    using assms(3) by (simp add: g1 add_entry_def next_entries_def)
  with n assms(7) have "list_all2 decodes [(i, vals)] msgs" by (cases n) auto
  then show ?thesis
    using parse_eventFields [OF vals assms(4), of i]
    by (auto simp: list_all2_Cons1 decodes_def xmessage_def)
qed

theorem published_event_is_read_witness:
  "\<exists>s2. ReadGroup demo_queue ''app-1'' 10 0 demo_stream =
     (s2, Inr [\<lparr>RedisID = ''1'', Event = received demo_sale, Attempts = 0\<rparr>])"
proof -
  obtain vals where vals: "eventFields demo_sale = Inr vals"
      "rs_group demo_stream = \<lparr>entries = [(''1'', vals)], delivered = 0, pel = Map.empty\<rparr>"
      "rs_faults demo_stream = []"
    by (rule demo_stream_entries)
  have pub: "Publish demo_queue demo_sale rs_start = (demo_stream, Inr ''1'')"
    using vals(1) by (simp add: demo_stream_def demo_queue_def Publish_def NewRedisStreamQueue_def
        redis_server_def rs_run_def rs_start_def rs_set_def rs_tick_def rs_new_id_def Let_def)
  have parse: "parseStreamMessage \<lparr>xm_ID = ''1'', xm_Values = vals\<rparr> =
      Inr \<lparr>RedisID = ''1'', Event = received demo_sale, Attempts = 0\<rparr>"
    by (rule parse_eventFields [OF vals(1) demo_sale_fields(2)])
  then obtain s2 msgs where read: "ReadGroup demo_queue ''app-1'' 10 0 demo_stream = (s2, Inr msgs)"
      "msgs \<noteq> []"
    using vals(2,3) by (simp add: ReadGroup_def demo_queue_def NewRedisStreamQueue_def redis_server_def
        rs_run_def next_entries_def Let_def xmessage_def)
  have "group_ok (rs_group rs_start)" by (simp add: rs_start_def group_ok_def)
  from published_event_is_read [OF sim_group this _ demo_sale_fields(2) pub [unfolded demo_queue_def]
      read(1) [unfolded demo_queue_def] read(2)] read(1)
  show ?thesis by (simp add: rs_start_def)
qed

section \<open>Malformed entries\<close>

lemma parseStreamMessages_malformed:
  assumes "m \<in> set ms" and "parseStreamMessage m = Inl err"
  shows "\<exists>e. parseStreamMessages ms = Inl e"
proof (cases "parseStreamMessages ms")
  case (Inr msgs)
  with assms show ?thesis
    by (induction ms arbitrary: msgs) (auto simp: bindE_Inr_iff split: sum.splits)
qed simp

text \<open>
  C33: One malformed entry fails the whole batch.  If a reply of the server contains an entry that
  cannot be decoded, \<open>ReadGroup\<close> and \<open>ClaimPending\<close> return an error and hand out none of the
  other entries of the reply, although the server has delivered all of them.
\<close>

theorem malformed_entry_fails_batch:
  assumes "m \<in> set ms" and "parseStreamMessage m = Inl err" and "consumer \<noteq> ''''" and "0 < count"
  shows "(XReadGroup (client q) (groupName q) consumer (streamName q) count block s =
        (s', Inr [\<lparr>xs_Stream = streamName q, xs_Messages = ms\<rparr>]) \<longrightarrow>
      (\<exists>e. ReadGroup q consumer count block s = (s', Inl e))) \<and>
    (0 < minIdle \<and> XAutoClaim (client q) (streamName q) (groupName q) consumer minIdle ''0-0'' count s =
        (s', Inr (ms, nxt)) \<longrightarrow>
      (\<exists>e. ClaimPending q consumer minIdle count s = Some (s', Inl e)))"
proof -
  obtain e where e: "parseStreamMessages ms = Inl e"
    using parseStreamMessages_malformed [OF assms(1,2)] by blast
  then show ?thesis
    using assms(3,4)
    by (auto simp: ReadGroup_def ClaimPending_def claimLoop.simps [of q consumer minIdle count "[]"])
qed

definition demo_poison :: XMessage where
  "demo_poison = \<lparr>xm_ID = ''7'', xm_Values = Map.empty\<rparr>"

theorem malformed_entry_fails_batch_witness:
  "let s = rs_start\<lparr>rs_group := \<lparr>entries = [(''7'', Map.empty)], delivered = 0, pel = Map.empty\<rparr>\<rparr> in
   \<exists>s' e. ReadGroup demo_queue ''app-1'' 10 0 s = (s', Inl e) \<and> delivered (rs_group s') = 1"
proof -
  let ?s = "rs_start\<lparr>rs_group := \<lparr>entries = [(''7'', Map.empty)], delivered = 0, pel = Map.empty\<rparr>\<rparr>"
  have bad: "parseStreamMessage demo_poison = Inl (QFieldMissing fieldEventID)"
    by (simp add: parseStreamMessage_def demo_poison_def requiredStringField_def)
  obtain s' where read: "XReadGroup (client demo_queue) (groupName demo_queue) ''app-1'' (streamName demo_queue)
      10 0 ?s = (s', Inr [\<lparr>xs_Stream = streamName demo_queue, xs_Messages = [demo_poison]\<rparr>])"
      "delivered (rs_group s') = 1"
    by (simp add: demo_queue_def NewRedisStreamQueue_def redis_server_def rs_run_def rs_start_def
        next_entries_def deliver_def Let_def xmessage_def demo_poison_def)
  have "\<exists>e. ReadGroup demo_queue ''app-1'' 10 0 ?s = (s', Inl e)"
    using malformed_entry_fails_batch [OF _ bad, of "[demo_poison]" "''app-1''" 10 demo_queue 0 ?s s' 1 "''0-0''"]
      read(1) by simp
  with read(2) show ?thesis unfolding Let_def by blast
qed

end
