(* ===== verification/Service.thy ===== *)
theory Service
  imports Repository_Correct
begin

text \<open>
  \<open>internal/service/processor.go\<close>: the thin layer between the workers and the repository, and
  the contract \<open>event_processor\<close> that the workers rely on, which the processor over the
  PostgreSQL repository fulfils on every session that obeys \<open>pg_session\<close>.
\<close>

section \<open>The processor\<close>

text \<open>The Go interface \<open>OrderRepository\<close>, and its implementation on a database session.\<close>

record 's OrderRepository =
  or_ProcessEventTx :: "OrderEvent \<Rightarrow> ('s, repo_error, ProcessResult) go"

definition NewPostgresOrderRepository :: "'s dbTransaction \<Rightarrow> 's OrderRepository" where
  "NewPostgresOrderRepository pool = \<lparr>or_ProcessEventTx = ProcessEventTx pool\<rparr>"

record 's Processor =
  proc_orders :: "'s OrderRepository"

definition NewProcessor :: "'s OrderRepository \<Rightarrow> 's Processor" where
  "NewProcessor repo = \<lparr>proc_orders = repo\<rparr>"

datatype service_error = ErrProcess string repo_error

definition Process :: "'s Processor \<Rightarrow> OrderEvent \<Rightarrow> ('s, service_error, ProcessResult) go" where
  "Process p event s =
     (case or_ProcessEventTx (proc_orders p) event s of
        None \<Rightarrow> None
      | Some (s', Inl err) \<Rightarrow> Some (s', Inl (ErrProcess (EventID event) err))
      | Some (s', Inr result) \<Rightarrow> Some (s', Inr result))"

section \<open>The contract of a processor\<close>

text \<open>
  Processing returns; a success is the specification's step on the durable tables, a failure
  leaves them alone or is a step whose commit was not confirmed.
\<close>

locale event_processor =
  fixes process :: "OrderEvent \<Rightarrow> ('s, 'e, ProcessResult) go"
    and codec :: pg_codec
    and durable :: "'s \<Rightarrow> tables"
  assumes process_returns: "\<exists>s' r. process ev s = Some (s', r)"
    and process_ok: "process ev s = Some (s', Inr r) \<Longrightarrow>
      \<exists>payload. validateEvent ev = Inr payload \<and>
        process_tables codec ev payload (durable s) = (durable s', r)"
    and process_err: "process ev s = Some (s', Inl e) \<Longrightarrow>
      durable s' = durable s \<or> (\<exists>payload. validateEvent ev = Inr payload \<and>
        durable s' = fst (process_tables codec ev payload (durable s)))"
begin

text \<open>The ids of the events with a committed outcome.\<close>

abbreviation settled :: "'s \<Rightarrow> string set" where
  "settled s \<equiv> dom (processed_events (durable s))"

lemma process_steps:
  assumes "process ev s = Some (s', r)"
  shows "durable s' = durable s \<or> (\<exists>payload. validateEvent ev = Inr payload \<and>
    durable s' = fst (process_tables codec ev payload (durable s)))"
proof (cases r)
  case (Inl e)
  with process_err assms show ?thesis by blast
next
  case (Inr a)
  with process_ok [of ev s s' a] assms show ?thesis by force
qed

lemma process_settles: "process ev s = Some (s', Inr r) \<Longrightarrow> EventID ev \<in> settled s'"
  using process_ok [of ev s s' r] dom_processed_process_tables [of codec ev] by (metis fst_conv insertI1)

lemma settled_mono: "process ev s = Some (s', r) \<Longrightarrow> settled s \<subseteq> settled s'"
  using process_steps [of ev s s' r] dom_processed_process_tables [of codec ev]
  by (metis order_refl subset_insertI)

end

sublocale pg_session \<subseteq> svc: event_processor
  "Process (NewProcessor (NewPostgresOrderRepository db))" codec committed
proof unfold_locales
  have Process: "Process (NewProcessor (NewPostgresOrderRepository db)) ev s =
      map_option (map_prod id (map_sum (ErrProcess (EventID ev)) id)) (ProcessEventTx db ev s)" for ev s
    by (simp add: Process_def NewProcessor_def NewPostgresOrderRepository_def
        split: option.split prod.split sum.split)
  fix ev s s' r e
  show "\<exists>s' r. Process (NewProcessor (NewPostgresOrderRepository db)) ev s = Some (s', r)"
    unfolding Process by (cases rule: ProcessEventTx_cases [of ev s]) simp_all
  show "\<exists>payload. validateEvent ev = Inr payload \<and>
      process_tables codec ev payload (committed s) = (committed s', r)"
    if "Process (NewProcessor (NewPostgresOrderRepository db)) ev s = Some (s', Inr r)"
    using that unfolding Process by (cases rule: ProcessEventTx_cases [of ev s]) auto
  show "committed s' = committed s \<or> (\<exists>payload. validateEvent ev = Inr payload \<and>
      committed s' = fst (process_tables codec ev payload (committed s)))"
    if "Process (NewProcessor (NewPostgresOrderRepository db)) ev s = Some (s', Inl e)"
    using that unfolding Process by (cases rule: ProcessEventTx_cases [of ev s]) auto
qed

context pg_session
begin

lemma processor_returns: "\<exists>s' r. Process (NewProcessor (NewPostgresOrderRepository db)) ev s = Some (s', r)"
  by (rule svc.process_returns)

lemma processor_ok:
  assumes "Process (NewProcessor (NewPostgresOrderRepository db)) ev s = Some (s', Inr r)"
  shows "\<exists>payload. validateEvent ev = Inr payload \<and>
    process_tables codec ev payload (committed s) = (committed s', r)"
  using assms by (rule svc.process_ok)

end

end
