(* ===== verification/Worker.thy ===== *)
theory Worker
  imports Service Queue Monitoring
begin

text \<open>
  \<open>internal/worker/pool.go\<close> and \<open>internal/worker/reclaimer.go\<close>, function by function.  The two
  consumers share the outside world (\<open>'w\<close>: the queue, the database, the clock and the context),
  the collector, the counter of the acknowledgement failure simulator and the log, which
  together are the state of the process.  A log line is a constructor with the arguments of the
  \<open>Printf\<close>.  A pointer argument that may be nil is an \<open>option\<close>; a pointer to the collector is
  a flag, as there is one collector in the process.  \<open>runWorker\<close> and \<open>Reclaimer.Run\<close> loop
  until the context is done, so they are \<open>partial_function (option)\<close>.
\<close>

section \<open>Interfaces\<close>

text \<open>The contexts the code passes on: the one of the application, and what \<open>WithoutCancel\<close> makes of it.\<close>

datatype go_context = AppContext | WithoutCancel go_context

record 'w StreamQueue =
  sq_ReadGroup :: "go_context \<Rightarrow> string \<Rightarrow> int \<Rightarrow> int \<Rightarrow> 'w \<Rightarrow> 'w \<times> (queue_error + StreamMessage list)"
  sq_Ack :: "go_context \<Rightarrow> string \<Rightarrow> 'w \<Rightarrow> 'w \<times> queue_error option"

record 'w PendingQueue =
  pq_ClaimPending :: "go_context \<Rightarrow> string \<Rightarrow> int \<Rightarrow> int \<Rightarrow> 'w \<Rightarrow>
    ('w \<times> (queue_error + StreamMessage list)) option"
  pq_Ack :: "go_context \<Rightarrow> string \<Rightarrow> 'w \<Rightarrow> 'w \<times> queue_error option"

record 'w EventProcessor =
  ep_Process :: "go_context \<Rightarrow> OrderEvent \<Rightarrow> ('w, service_error, ProcessResult) go"

text \<open>
  The runtime: whether \<open>ctx.Err()\<close> is non-nil, and whether the timer rather than \<open>ctx.Done()\<close>
  won a \<open>select\<close> on both.
\<close>

record 'w runtime =
  rt_Err :: "'w \<Rightarrow> 'w \<times> bool"
  rt_TimerFirst :: "int \<Rightarrow> 'w \<Rightarrow> 'w \<times> bool"

section \<open>Configuration and state\<close>

record FailureSimulationConfig =
  fs_After :: u64
  fs_Count :: u64

record Config =
  WorkerCount :: int
  ConsumerPrefix :: string
  ReadCount :: int
  Block :: int
  ReadErrorBackoff :: int
  FailureSimulation :: FailureSimulationConfig

text \<open>The fixed part of an \<open>ackFailureSimulator\<close>; its counter is in the process state.\<close>

record ackFailureSimulator =
  sim_after :: u64
  sim_count :: u64

datatype Logger = DefaultLogger | CustomLogger nat

record 'w Pool =
  p_queue :: "'w StreamQueue"
  p_processor :: "'w EventProcessor"
  p_config :: Config
  p_logger :: Logger
  p_metrics :: bool
  p_simulator :: "ackFailureSimulator option"

datatype log_line =
    WorkerStarted string | WorkerStopped string
  | ReadFailed string queue_error
  | ProcessFailed string string string string service_error
  | SimulatedFailure string string string string string
  | AckFailed string string string string string queue_error
  | AckSuccess string string string string string int
  | ReclaimerStarted string | ReclaimerStopped string
  | ClaimFailed string queue_error

record 'w process_state =
  world :: 'w
  collector :: Collector
  successfulProcessed :: u64
  logged :: "(Logger \<times> log_line) list"

definition printf :: "Logger \<Rightarrow> log_line \<Rightarrow> 'w process_state \<Rightarrow> 'w process_state" where
  "printf logger line st = st\<lparr>logged := logged st @ [(logger, line)]\<rparr>"

text \<open>\<open>if metrics != nil { ... }\<close>\<close>

definition ifMetrics :: "bool \<Rightarrow> (Collector \<Rightarrow> Collector) \<Rightarrow> 'w process_state \<Rightarrow> 'w process_state" where
  "ifMetrics metrics f st = (if metrics then st\<lparr>collector := f (collector st)\<rparr> else st)"

section \<open>The acknowledgement failure simulator\<close>

definition newAckFailureSimulator :: "FailureSimulationConfig \<Rightarrow> ackFailureSimulator option" where
  "newAckFailureSimulator config =
     (if fs_After config = 0 \<or> fs_Count config = 0 then None
      else Some \<lparr>sim_after = fs_After config, sim_count = fs_Count config\<rparr>)"

text \<open>The decision, and the counter after \<open>Add(1)\<close>.\<close>

definition shouldSkipAck :: "ackFailureSimulator \<Rightarrow> u64 \<Rightarrow> bool \<times> u64" where
  "shouldSkipAck s counter =
     (let position = counter + 1 in
      (if position \<le> sim_after s then False else position - sim_after s \<le> sim_count s, position))"

section \<open>The pool\<close>

datatype worker_error =
    ErrStreamQueueRequired | ErrProcessorRequired | ErrWorkerCount | ErrConsumerPrefix
  | ErrReadCount | ErrBlock
  | ErrPendingQueueRequired | ErrReclaimerName | ErrInterval | ErrMinIdle | ErrReclaimCount

definition defaultReadErrorBackoff :: int where
  "defaultReadErrorBackoff = 250000000"

definition NewPool ::
  "'w StreamQueue option \<Rightarrow> 'w EventProcessor option \<Rightarrow> Config \<Rightarrow> Logger option \<Rightarrow> bool list \<Rightarrow>
   worker_error + 'w Pool" where
  "NewPool streamQueue processor config logger collectors =
     (case streamQueue of None \<Rightarrow> Inl ErrStreamQueueRequired
      | Some queue \<Rightarrow>
     (case processor of None \<Rightarrow> Inl ErrProcessorRequired
      | Some proc \<Rightarrow>
      if WorkerCount config \<le> 0 then Inl ErrWorkerCount
      else if ConsumerPrefix config = '''' then Inl ErrConsumerPrefix
      else if ReadCount config \<le> 0 then Inl ErrReadCount
      else if Block config < 0 then Inl ErrBlock
      else
        (let config' = (if ReadErrorBackoff config \<le> 0
               then config\<lparr>ReadErrorBackoff := defaultReadErrorBackoff\<rparr> else config);
             logger' = (case logger of None \<Rightarrow> DefaultLogger | Some l \<Rightarrow> l);
             metrics = (case collectors of [] \<Rightarrow> False | m # _ \<Rightarrow> m)
         in Inr \<lparr>p_queue = queue, p_processor = proc, p_config = config', p_logger = logger',
                 p_metrics = metrics,
                 p_simulator = newAckFailureSimulator (FailureSimulation config')\<rparr>)))"

definition handleMessage ::
  "'w Pool \<Rightarrow> go_context \<Rightarrow> string \<Rightarrow> StreamMessage \<Rightarrow> 'w process_state \<Rightarrow> 'w process_state option" where
  "handleMessage p ctx consumerName message st =
     (case ep_Process (p_processor p) ctx (Event message) (world st) of
        None \<Rightarrow> None
      | Some (w1, Inl err) \<Rightarrow>
          Some (printf (p_logger p) (ProcessFailed consumerName (RedisID message)
                  (EventID (Event message)) (OrderID (Event message)) err)
            (ifMetrics (p_metrics p) RecordFailure (st\<lparr>world := w1\<rparr>)))
      | Some (w1, Inr result) \<Rightarrow>
          (let st1 = ifMetrics (p_metrics p) (RecordResult result) (st\<lparr>world := w1\<rparr>);
               (skip, st2) = (case p_simulator p of
                   None \<Rightarrow> (False, st1)
                 | Some sim \<Rightarrow>
                     (let (skip, counter) = shouldSkipAck sim (successfulProcessed st1)
                      in (skip, st1\<lparr>successfulProcessed := counter\<rparr>)))
           in if skip then
                Some (printf (p_logger p) (SimulatedFailure consumerName (RedisID message)
                        (res_EventID result) (res_OrderID result) (res_Classification result))
                  (ifMetrics (p_metrics p) RecordSimulatedFailure st2))
              else
                (case sq_Ack (p_queue p) ctx (RedisID message) (world st2) of
                   (w2, Some err) \<Rightarrow>
                     Some (printf (p_logger p) (AckFailed consumerName (RedisID message)
                       (res_EventID result) (res_OrderID result) (res_Classification result) err)
                       (st2\<lparr>world := w2\<rparr>))
                 | (w2, None) \<Rightarrow>
                     Some (printf (p_logger p) (AckSuccess consumerName (RedisID message)
                       (res_EventID result) (res_OrderID result) (res_Classification result)
                       (res_ReplayedPending result)) (st2\<lparr>world := w2\<rparr>)))))"

text \<open>The loop over the messages of a batch.\<close>

fun handleMessages ::
  "'w Pool \<Rightarrow> go_context \<Rightarrow> string \<Rightarrow> StreamMessage list \<Rightarrow> 'w process_state \<Rightarrow>
   'w process_state option" where
  "handleMessages p ctx consumerName [] st = Some st"
| "handleMessages p ctx consumerName (message # messages) st =
     Option.bind (handleMessage p ctx consumerName message st)
       (handleMessages p ctx consumerName messages)"

text \<open>A \<open>select\<close> on \<open>ctx.Done()\<close> and a new timer.\<close>

definition waitForRetry :: "'w runtime \<Rightarrow> int \<Rightarrow> 'w \<Rightarrow> 'w \<times> bool" where
  "waitForRetry rt delay w = rt_TimerFirst rt delay w"

partial_function (option) workerLoop ::
  "'w runtime \<Rightarrow> 'w Pool \<Rightarrow> go_context \<Rightarrow> string \<Rightarrow> 'w process_state \<Rightarrow> 'w process_state option"
where
  "workerLoop rt p ctx consumerName st =
     (case rt_Err rt (world st) of (w1, stopped) \<Rightarrow>
        if stopped then Some (st\<lparr>world := w1\<rparr>)
        else
          (case sq_ReadGroup (p_queue p) ctx consumerName (ReadCount (p_config p))
                  (Block (p_config p)) w1 of
             (w2, Inl err) \<Rightarrow>
               (case rt_Err rt w2 of (w3, cancelled) \<Rightarrow>
                  if cancelled \<or> isCanceled err then Some (st\<lparr>world := w3\<rparr>)
                  else
                    (let st3 = printf (p_logger p) (ReadFailed consumerName err) (st\<lparr>world := w3\<rparr>) in
                     case waitForRetry rt (ReadErrorBackoff (p_config p)) w3 of (w4, fired) \<Rightarrow>
                       if \<not> fired then Some (st3\<lparr>world := w4\<rparr>)
                       else workerLoop rt p ctx consumerName (st3\<lparr>world := w4\<rparr>)))
           | (w2, Inr messages) \<Rightarrow>
               Option.bind
                 (handleMessages p (WithoutCancel ctx) consumerName messages (st\<lparr>world := w2\<rparr>))
                 (\<lambda>st2. workerLoop rt p ctx consumerName st2)))"

definition runWorker ::
  "'w runtime \<Rightarrow> 'w Pool \<Rightarrow> go_context \<Rightarrow> string \<Rightarrow> 'w process_state \<Rightarrow> 'w process_state option" where
  "runWorker rt p ctx consumerName st =
     map_option (printf (p_logger p) (WorkerStopped consumerName))
       (workerLoop rt p ctx consumerName (printf (p_logger p) (WorkerStarted consumerName) st))"


text \<open>
  \<open>Pool.Run\<close>: one goroutine per consumer name, each running \<open>runWorker\<close>; the call returns
  when all of them have.
\<close>

definition consumerNames :: "'w Pool \<Rightarrow> string list" where
  "consumerNames p =
     map (\<lambda>index. ConsumerPrefix (p_config p) @ ''-'' @ decimal (index + 1))
       [0..<nat (WorkerCount (p_config p))]"

section \<open>The reclaimer\<close>

record ReclaimerConfig =
  ConsumerName :: string
  Interval :: int
  MinIdle :: int
  Count :: int

record 'w Reclaimer =
  r_queue :: "'w PendingQueue"
  r_processor :: "'w EventProcessor"
  r_config :: ReclaimerConfig
  r_logger :: Logger
  r_metrics :: bool

definition NewReclaimer ::
  "'w PendingQueue option \<Rightarrow> 'w EventProcessor option \<Rightarrow> ReclaimerConfig \<Rightarrow> Logger option \<Rightarrow>
   bool list \<Rightarrow> worker_error + 'w Reclaimer" where
  "NewReclaimer pendingQueue processor config logger collectors =
     (case pendingQueue of None \<Rightarrow> Inl ErrPendingQueueRequired
      | Some queue \<Rightarrow>
     (case processor of None \<Rightarrow> Inl ErrProcessorRequired
      | Some proc \<Rightarrow>
      if ConsumerName config = '''' then Inl ErrReclaimerName
      else if Interval config \<le> 0 then Inl ErrInterval
      else if MinIdle config \<le> 0 then Inl ErrMinIdle
      else if Count config \<le> 0 then Inl ErrReclaimCount
      else Inr \<lparr>r_queue = queue, r_processor = proc, r_config = config,
                r_logger = (case logger of None \<Rightarrow> DefaultLogger | Some l \<Rightarrow> l),
                r_metrics = (case collectors of [] \<Rightarrow> False | m # _ \<Rightarrow> m)\<rparr>))"

definition reclaimMessage ::
  "'w Reclaimer \<Rightarrow> go_context \<Rightarrow> StreamMessage \<Rightarrow> 'w process_state \<Rightarrow> 'w process_state option" where
  "reclaimMessage r ctx message st =
     (let name = ConsumerName (r_config r) in
      case ep_Process (r_processor r) ctx (Event message) (world st) of
        None \<Rightarrow> None
      | Some (w1, Inl err) \<Rightarrow>
          Some (printf (r_logger r) (ProcessFailed name (RedisID message)
                  (EventID (Event message)) (OrderID (Event message)) err)
            (ifMetrics (r_metrics r) RecordFailure (st\<lparr>world := w1\<rparr>)))
      | Some (w1, Inr result) \<Rightarrow>
          (let st1 = ifMetrics (r_metrics r) (\<lambda>c. RecordRecovered (RecordResult result c))
                 (st\<lparr>world := w1\<rparr>)
           in case pq_Ack (r_queue r) ctx (RedisID message) (world st1) of
                (w2, Some err) \<Rightarrow>
                  Some (printf (r_logger r) (AckFailed name (RedisID message)
                    (res_EventID result) (res_OrderID result) (res_Classification result) err)
                    (st1\<lparr>world := w2\<rparr>))
              | (w2, None) \<Rightarrow>
                  Some (printf (r_logger r) (AckSuccess name (RedisID message)
                    (res_EventID result) (res_OrderID result) (res_Classification result)
                    (res_ReplayedPending result)) (st1\<lparr>world := w2\<rparr>))))"

fun reclaimMessages ::
  "'w Reclaimer \<Rightarrow> go_context \<Rightarrow> StreamMessage list \<Rightarrow> 'w process_state \<Rightarrow> 'w process_state option" where
  "reclaimMessages r ctx [] st = Some st"
| "reclaimMessages r ctx (message # messages) st =
     Option.bind (reclaimMessage r ctx message st) (reclaimMessages r ctx messages)"

definition reclaim ::
  "'w runtime \<Rightarrow> 'w Reclaimer \<Rightarrow> go_context \<Rightarrow> 'w process_state \<Rightarrow> 'w process_state option" where
  "reclaim rt r ctx st =
     (case pq_ClaimPending (r_queue r) ctx (ConsumerName (r_config r)) (MinIdle (r_config r))
             (Count (r_config r)) (world st) of
        None \<Rightarrow> None
      | Some (w1, Inl err) \<Rightarrow>
          (case rt_Err rt w1 of (w2, cancelled) \<Rightarrow>
             if \<not> cancelled \<and> \<not> isCanceled err
             then Some (printf (r_logger r) (ClaimFailed (ConsumerName (r_config r)) err)
                    (st\<lparr>world := w2\<rparr>))
             else Some (st\<lparr>world := w2\<rparr>))
      | Some (w1, Inr messages) \<Rightarrow>
          reclaimMessages r (WithoutCancel ctx) messages (st\<lparr>world := w1\<rparr>))"

text \<open>The first timer fires at once, the later ones after \<open>Interval\<close>.\<close>

partial_function (option) reclaimLoop ::
  "'w runtime \<Rightarrow> 'w Reclaimer \<Rightarrow> go_context \<Rightarrow> int \<Rightarrow> 'w process_state \<Rightarrow> 'w process_state option"
where
  "reclaimLoop rt r ctx delay st =
     (case rt_TimerFirst rt delay (world st) of (w1, fired) \<Rightarrow>
        if \<not> fired then Some (st\<lparr>world := w1\<rparr>)
        else Option.bind (reclaim rt r ctx (st\<lparr>world := w1\<rparr>))
               (\<lambda>st1. reclaimLoop rt r ctx (Interval (r_config r)) st1))"

definition RunReclaimer ::
  "'w runtime \<Rightarrow> 'w Reclaimer \<Rightarrow> go_context \<Rightarrow> 'w process_state \<Rightarrow> 'w process_state option" where
  "RunReclaimer rt r ctx st =
     map_option (printf (r_logger r) (ReclaimerStopped (ConsumerName (r_config r))))
       (reclaimLoop rt r ctx 0
         (printf (r_logger r) (ReclaimerStarted (ConsumerName (r_config r))) st))"

end
