(* ===== verification/Ingestion.thy ===== *)
theory Ingestion
  imports Worker Queue_Properties Repository_Orders Repository_Properties
begin

text \<open>
  The consumers of the group at work together, as a step relation: workers and reclaimers of any
  number of processes, each at a point of \<open>runWorker\<close> or \<open>reclaim\<close> between two calls that
  touch Redis or PostgreSQL, producers that publish at any time,
  other clients that add arbitrary entries, and crashes that wipe out what
  the consumers hold in memory.  One step is one call; \<open>ProcessEventTx\<close> is one step since it is
  one transaction.  The theorems hold for every interleaving of the steps and every failure of
  the calls: nothing is lost, and every event takes effect once.
\<close>

section \<open>The step relation\<close>

text \<open>
  A consumer waits for messages, works through a batch, or has committed a message's event and
  not yet acknowledged it.
\<close>

datatype consumer =
    Idle
  | Holding "StreamMessage list"
  | Committed StreamMessage ProcessResult "StreamMessage list"

record ('r, 'd) cluster =
  redis :: 'r
  database :: 'd
  consumers :: "string \<Rightarrow> consumer"

inductive step ::
  "'r RedisStreamQueue \<Rightarrow> 'd Processor \<Rightarrow> ('r, 'd) cluster \<Rightarrow> ('r, 'd) cluster \<Rightarrow> bool"
  for q :: "'r RedisStreamQueue" and pr :: "'d Processor"
where
  publish: "Publish q ev (redis x) = (s', r) \<Longrightarrow> step q pr x (x\<lparr>redis := s'\<rparr>)"
| foreign: "XAdd (client q) (streamName q) vals (redis x) = (s', r) \<Longrightarrow> string_fields vals \<Longrightarrow>
    step q pr x (x\<lparr>redis := s'\<rparr>)"
| read: "consumers x name = Idle \<Longrightarrow> ReadGroup q name n block (redis x) = (s', Inr msgs) \<Longrightarrow>
    step q pr x (x\<lparr>redis := s', consumers := (consumers x)(name := Holding msgs)\<rparr>)"
| read_failed: "consumers x name = Idle \<Longrightarrow> ReadGroup q name n block (redis x) = (s', Inl e) \<Longrightarrow>
    step q pr x (x\<lparr>redis := s'\<rparr>)"
| claim: "consumers x name = Idle \<Longrightarrow>
    ClaimPending q name minIdle n (redis x) = Some (s', Inr msgs) \<Longrightarrow>
    step q pr x (x\<lparr>redis := s', consumers := (consumers x)(name := Holding msgs)\<rparr>)"
| claim_failed: "consumers x name = Idle \<Longrightarrow>
    ClaimPending q name minIdle n (redis x) = Some (s', Inl e) \<Longrightarrow> step q pr x (x\<lparr>redis := s'\<rparr>)"
| commit: "consumers x name = Holding (m # ms) \<Longrightarrow>
    Process pr (Event m) (database x) = Some (d', Inr result) \<Longrightarrow>
    step q pr x (x\<lparr>database := d', consumers := (consumers x)(name := Committed m result ms)\<rparr>)"
| process_failed: "consumers x name = Holding (m # ms) \<Longrightarrow>
    Process pr (Event m) (database x) = Some (d', Inl e) \<Longrightarrow>
    step q pr x (x\<lparr>database := d', consumers := (consumers x)(name := Holding ms)\<rparr>)"
| ack: "consumers x name = Committed m result ms \<Longrightarrow> Ack q (RedisID m) (redis x) = (s', r) \<Longrightarrow>
    step q pr x (x\<lparr>redis := s', consumers := (consumers x)(name := Holding ms)\<rparr>)"
| skip_ack: "consumers x name = Committed m result ms \<Longrightarrow>
    step q pr x (x\<lparr>consumers := (consumers x)(name := Holding ms)\<rparr>)"
| batch_done: "consumers x name = Holding [] \<Longrightarrow>
    step q pr x (x\<lparr>consumers := (consumers x)(name := Idle)\<rparr>)"
| crash: "step q pr x (x\<lparr>consumers := (\<lambda>name. if name \<in> crashed then Idle else consumers x name)\<rparr>)"

abbreviation leads_to :: "'r RedisStreamQueue \<Rightarrow> 'd Processor \<Rightarrow> ('r, 'd) cluster \<Rightarrow> ('r, 'd) cluster \<Rightarrow> bool" where
  "leads_to q pr \<equiv> (step q pr)\<^sup>*\<^sup>*"

section \<open>What holds at every point\<close>

text \<open>The messages of the delivered entries, and what a consumer holds.\<close>

definition delivered_msg :: "group_state \<Rightarrow> StreamMessage \<Rightarrow> bool" where
  "delivered_msg g m \<longleftrightarrow> RedisID m \<in> set (delivered_ids g) \<and> (\<exists>e \<in> set (entries g). decodes e m)"

fun holds_delivered :: "group_state \<Rightarrow> string set \<Rightarrow> consumer \<Rightarrow> bool" where
  "holds_delivered g done Idle \<longleftrightarrow> True"
| "holds_delivered g done (Holding ms) \<longleftrightarrow> (\<forall>m \<in> set ms. delivered_msg g m)"
| "holds_delivered g done (Committed m r ms) \<longleftrightarrow>
     EventID (Event m) \<in> done \<and> (\<forall>m' \<in> set (m # ms). delivered_msg g m')"

text \<open>Every acknowledged entry carries an event that has been processed.\<close>

definition acked_processed :: "group_state \<Rightarrow> string set \<Rightarrow> bool" where
  "acked_processed g done \<longleftrightarrow>
     (\<forall>i \<in> acked_ids g. \<exists>m. RedisID m = i \<and> delivered_msg g m \<and> EventID (Event m) \<in> done)"

text \<open>
  The tables are explained by a sequence of arrivals: events of delivered entries, each id once,
  applied by the specification to the empty tables.
\<close>

definition explained :: "pg_codec \<Rightarrow> group_state \<Rightarrow> arrivals \<Rightarrow> tables \<Rightarrow> bool" where
  "explained c g as t \<longleftrightarrow>
     distinct (map (EventID \<circ> fst) as) \<and> dom (processed_events t) = set (map (EventID \<circ> fst) as) \<and>
     (\<forall>a \<in> set as. validateEvent (fst a) = Inr (snd a) \<and>
        (\<exists>m. delivered_msg g m \<and> Event m = fst a)) \<and>
     t = run_tables c as empty_tables"

definition system_inv :: "pg_codec \<Rightarrow> group_state \<Rightarrow> tables \<Rightarrow> (string \<Rightarrow> consumer) \<Rightarrow> bool" where
  "system_inv c g t pcs \<longleftrightarrow>
     group_ok g \<and> acked_processed g (dom (processed_events t)) \<and>
     (\<forall>name. holds_delivered g (dom (processed_events t)) (pcs name)) \<and>
     (\<exists>as. explained c g as t)"

text \<open>More entries and more deliveries keep what was delivered.\<close>

definition extends :: "group_state \<Rightarrow> group_state \<Rightarrow> bool" where
  "extends g g' \<longleftrightarrow> set (entries g) \<subseteq> set (entries g') \<and> set (delivered_ids g) \<subseteq> set (delivered_ids g')"

lemma delivered_msg_extends: "extends g g' \<Longrightarrow> delivered_msg g m \<Longrightarrow> delivered_msg g' m"
  unfolding extends_def delivered_msg_def by blast

lemma holds_delivered_mono:
  assumes "extends g g'" and "done \<subseteq> done'" and "holds_delivered g done pc"
  shows "holds_delivered g' done' pc"
  using assms by (cases pc) (auto intro: delivered_msg_extends)

lemma explained_extends: "extends g g' \<Longrightarrow> explained c g as t \<Longrightarrow> explained c g' as t"
  unfolding explained_def by (blast intro: delivered_msg_extends)

lemma extends_deliver: "extends g (deliver consumer n g)"
  by (simp add: extends_def delivered_ids_deliver) (simp add: deliver_def)

lemma extends_reowned: "reowned g g' \<Longrightarrow> extends g g'"
  using group_ok_reowned(3) [of g g'] reowned_sel [of g g'] by (simp add: extends_def)

lemma extends_acknowledge: "extends g (acknowledge i g)"
  by (simp add: extends_def acknowledge_def delivered_ids_def)

lemma extends_add_entry:
  assumes "group_ok g"
  shows "extends g (add_entry i f g)"
  using assms by (auto simp: extends_def add_entry_def delivered_ids_def group_ok_def)

lemma extends_refl [simp]: "extends g g"
  by (simp add: extends_def)

lemma run_tables_append [simp]: "run_tables c (as @ bs) t = run_tables c bs (run_tables c as t)"
  by (induction as arbitrary: t) simp_all

text \<open>A processed event joins the sequence unless its id is there already.\<close>

lemma explained_process:
  assumes "explained c g as t" and "delivered_msg g m" and "validateEvent (Event m) = Inr payload"
  shows "\<exists>as'. explained c g as' (fst (process_tables c (Event m) payload t))"
proof (cases "processed_events t (EventID (Event m)) = None")
  case True
  then have "EventID (Event m) \<notin> set (map (EventID \<circ> fst) as)"
    using assms(1) unfolding explained_def by (metis domIff)
  then have "explained c g (as @ [(Event m, payload)]) (fst (process_tables c (Event m) payload t))"
    using assms unfolding explained_def by (auto simp: dom_processed_process_tables)
  then show ?thesis by blast
next
  case False
  with assms(1) show ?thesis by (auto simp: process_tables_def)
qed

lemma acked_processed_mono:
  assumes "acked_processed g done" and "extends g g'" and "done \<subseteq> done'" and "acked_ids g' \<subseteq> acked_ids g"
  shows "acked_processed g' done'"
  using assms unfolding acked_processed_def by (blast intro: delivered_msg_extends)

text \<open>A call to Redis that acknowledges nothing.\<close>

lemma system_inv_redis:
  assumes "system_inv c g t pcs" and "group_ok g'" and "extends g g'" and "acked_ids g' = acked_ids g"
  shows "system_inv c g' t pcs"
  using assms acked_processed_mono [OF _ assms(3)] holds_delivered_mono [OF assms(3)] explained_extends [OF assms(3)]
  unfolding system_inv_def by (metis order_refl)

lemma system_inv_consumer:
  assumes "system_inv c g t pcs" and "holds_delivered g (dom (processed_events t)) pc"
  shows "system_inv c g t (pcs(name := pc))"
  using assms unfolding system_inv_def by simp

text \<open>A call to the database that is a step of the specification or none.\<close>

lemma system_inv_database:
  assumes "system_inv c g t pcs" and "delivered_msg g m"
    and "t' = t \<or> (\<exists>payload. validateEvent (Event m) = Inr payload \<and>
      t' = fst (process_tables c (Event m) payload t))"
  shows "system_inv c g t' pcs"
proof (cases "t' = t")
  case False
  then obtain payload where p: "validateEvent (Event m) = Inr payload"
      "t' = fst (process_tables c (Event m) payload t)"
    using assms(3) by blast
  then have mono: "dom (processed_events t) \<subseteq> dom (processed_events t')"
    by (auto simp: dom_processed_process_tables)
  obtain as where "explained c g as t" using assms(1) by (auto simp: system_inv_def)
  from explained_process [OF this assms(2) p(1)] have "\<exists>as. explained c g as t'"
    by (simp add: p(2))
  then show ?thesis
    using assms(1) mono acked_processed_mono [OF _ extends_refl mono order_refl]
      holds_delivered_mono [OF extends_refl mono]
    by (simp add: system_inv_def)
qed (use assms(1) in simp)

lemma system_inv_acknowledge:
  assumes "system_inv c g t pcs" and "delivered_msg g m" and "EventID (Event m) \<in> dom (processed_events t)"
  shows "system_inv c (acknowledge (RedisID m) g) t pcs"
proof -
  let ?g = "acknowledge (RedisID m) g"
  note inv = assms(1) [unfolded system_inv_def]
  have ext: "extends g ?g" by (rule extends_acknowledge)
  have "acked_processed ?g (dom (processed_events t))"
    unfolding acked_processed_def
  proof
    fix i
    assume "i \<in> acked_ids ?g"
    then consider "i \<in> acked_ids g" | "i = RedisID m"
      using group_ok_acknowledge(2) [of g "RedisID m"] inv by blast
    then show "\<exists>m. RedisID m = i \<and> delivered_msg ?g m \<and> EventID (Event m) \<in> dom (processed_events t)"
      using inv assms(2,3) delivered_msg_extends [OF ext] unfolding acked_processed_def by cases blast+
  qed
  then show ?thesis
    using inv group_ok_acknowledge(1) [of g] holds_delivered_mono [OF ext order_refl] explained_extends [OF ext]
    unfolding system_inv_def by blast
qed

section \<open>The invariant is kept\<close>

locale ingestion = redis_cursor c stream grp_name group ahead +
    pg_session db codec view committed in_tx
  for c :: "'r redis_client" and stream grp_name and group :: "'r \<Rightarrow> group_state" and ahead
    and db :: "'d dbTransaction" and codec and view and committed :: "'d \<Rightarrow> tables" and in_tx
begin

abbreviation processor :: "'d Processor" where
  "processor \<equiv> NewProcessor (NewPostgresOrderRepository db)"

definition ok :: "('r, 'd) cluster \<Rightarrow> bool" where
  "ok x \<longleftrightarrow> system_inv codec (group (redis x)) (committed (database x)) (consumers x)"

lemma add_grows:
  assumes "XAdd c stream vals s = (s', r)" and "string_fields vals"
  shows "group s' = group s \<or> (\<exists>i f. group s' = add_entry i f (group s) \<and> i \<notin> entry_ids (group s))"
  using assms add_ok [OF _ assms(2)] add_err [OF _ assms(2)] by (cases r) blast+

lemma Publish_grows:
  assumes "Publish queue ev s = (s', r)"
  shows "group s' = group s \<or> (\<exists>i f. group s' = add_entry i f (group s) \<and> i \<notin> entry_ids (group s))"
proof (cases "eventFields ev")
  case (Inr vals)
  with assms obtain r' where "XAdd c stream vals s = (s', r')"
    by (auto simp: Publish_def split: prod.splits sum.splits)
  then show ?thesis using add_grows string_eventFields [OF Inr] by blast
qed (use assms in \<open>simp add: Publish_def\<close>)

lemma grows_inv:
  assumes "system_inv codec g t pcs"
    and "g' = g \<or> (\<exists>i f. g' = add_entry i f g \<and> i \<notin> entry_ids g)"
  shows "system_inv codec g' t pcs"
proof -
  have "group_ok g" using assms(1) by (simp add: system_inv_def)
  with assms system_inv_redis [OF assms(1)] show ?thesis
    using group_ok_add_entry extends_add_entry by metis
qed

lemma ReadGroup_inv:
  assumes "system_inv codec (group s) t pcs" and "ReadGroup queue name n block s = (s', r)"
  shows "system_inv codec (group s') t pcs"
    and "r = Inr msgs \<Longrightarrow> \<forall>m \<in> set msgs. delivered_msg (group s') m"
proof -
  have gok: "group_ok (group s)" using assms(1) by (simp add: system_inv_def)
  obtain k where "group s' = deliver name k (group s)" using ReadGroup_any [OF assms(2)] by blast
  then show "system_inv codec (group s') t pcs"
    using system_inv_redis [OF assms(1)] group_ok_deliver [OF gok] extends_deliver by metis
  show "\<forall>m \<in> set msgs. delivered_msg (group s') m" if r: "r = Inr msgs"
  proof -
    obtain k where k: "group s' = deliver name k (group s)" "list_all2 decodes (next_entries k (group s)) msgs"
      using ReadGroup_ok assms(2) [unfolded r] by blast
    have "entries (group s') = entries (group s)" by (simp add: k(1) deliver_def)
    moreover have "\<exists>e \<in> set (next_entries k (group s)). decodes e m" if "m \<in> set msgs" for m
      using k(2) that by (metis list_all2_conv_all_nth in_set_conv_nth)
    ultimately show ?thesis
      using set_next_entries [of k "group s"]
      by (fastforce simp: delivered_msg_def k(1) delivered_ids_deliver dest: decodes_id)
  qed
qed

lemma ClaimPending_inv:
  assumes "system_inv codec (group s) t pcs" and "ClaimPending queue name minIdle n s = Some (s', r)"
  shows "system_inv codec (group s') t pcs"
    and "r = Inr msgs \<Longrightarrow> \<forall>m \<in> set msgs. delivered_msg (group s') m"
proof -
  have gok: "group_ok (group s)" using assms(1) by (simp add: system_inv_def)
  have res: "reowned (group s) (group s')" "r = Inr msgs \<Longrightarrow> claimed_from (group s) msgs"
    using ClaimPending_result [of name minIdle n s] assms(2) by auto
  show "system_inv codec (group s') t pcs"
    using system_inv_redis [OF assms(1)] group_ok_reowned [OF res(1)] extends_reowned [OF res(1)] gok by simp
  show "\<forall>m \<in> set msgs. delivered_msg (group s') m" if "r = Inr msgs"
    using res(2) [OF that] gok group_ok_reowned(3) [OF res(1)] reowned_sel(1) [OF res(1)]
    by (auto simp: claimed_from_def delivered_msg_def group_ok_def)
qed

lemma Process_inv:
  assumes "system_inv codec g (committed d) pcs" and "delivered_msg g m"
    and "Process processor (Event m) d = Some (d', r)"
  shows "system_inv codec g (committed d') pcs"
  by (rule system_inv_database [OF assms(1,2) svc.process_steps [OF assms(3)]])

lemma step_inv:
  assumes "step queue processor x y" and "ok x"
  shows "ok y"
  using assms
proof (induction rule: step.induct)
  case (publish ev x s' r)
  then show ?case using grows_inv Publish_grows by (simp add: ok_def)
next
  case (foreign vals x s' r)
  then show ?case using grows_inv add_grows by (simp add: ok_def)
next
  case (read x name n block s' msgs)
  then show ?case
    using ReadGroup_inv [of "redis x" _ _ name n block s'] system_inv_consumer by (simp add: ok_def)
next
  case (read_failed x name n block s' e)
  then show ?case using ReadGroup_inv(1) by (simp add: ok_def)
next
  case (claim x name minIdle n s' msgs)
  then show ?case
    using ClaimPending_inv [of "redis x" _ _ name minIdle n s'] system_inv_consumer by (simp add: ok_def)
next
  case (claim_failed x name minIdle n s' e)
  then show ?case using ClaimPending_inv(1) by (simp add: ok_def)
next
  case (commit x name m ms d' result)
  have held: "\<forall>m' \<in> set (m # ms). delivered_msg (group (redis x)) m'"
    using commit(1,3) unfolding ok_def system_inv_def by (metis holds_delivered.simps(2))
  have "system_inv codec (group (redis x)) (committed d') (consumers x)"
    using held by (intro Process_inv [OF commit(3) [unfolded ok_def] _ commit(2)]) simp
  from system_inv_consumer [OF this, of "Committed m result ms"] held svc.process_settles [OF commit(2)]
  show ?case by (simp add: ok_def)
next
  case (process_failed x name m ms d' e)
  have held: "\<forall>m' \<in> set (m # ms). delivered_msg (group (redis x)) m'"
    using process_failed(1,3) unfolding ok_def system_inv_def by (metis holds_delivered.simps(2))
  have "system_inv codec (group (redis x)) (committed d') (consumers x)"
    using held by (intro Process_inv [OF process_failed(3) [unfolded ok_def] _ process_failed(2)]) simp
  from system_inv_consumer [OF this, of "Holding ms"] held show ?case by (simp add: ok_def)
next
  case (ack x name m result ms s' r)
  let ?g = "group (redis x)" and ?t = "committed (database x)"
  have held: "holds_delivered ?g (dom (processed_events ?t)) (Committed m result ms)"
    using ack(1,3) unfolding ok_def system_inv_def by metis
  have g': "group s' = ?g \<or> group s' = acknowledge (RedisID m) ?g" by (rule Ack_any [OF ack(2)])
  then have "system_inv codec (group s') ?t (consumers x)"
    using ack(3) held by (auto simp: ok_def intro!: system_inv_acknowledge)
  moreover have "holds_delivered (group s') (dom (processed_events ?t)) (Holding ms)"
    using g' held delivered_msg_extends [OF extends_acknowledge, of ?g _ "RedisID m"] by auto
  ultimately show ?case by (simp add: ok_def system_inv_consumer)
next
  case (skip_ack x name m result ms)
  then have "holds_delivered (group (redis x)) (dom (processed_events (committed (database x))))
      (Committed m result ms)"
    unfolding ok_def system_inv_def by metis
  with skip_ack(2) show ?case by (simp add: ok_def system_inv_consumer)
next
  case (batch_done x name)
  then show ?case by (simp add: ok_def system_inv_consumer)
next
  case (crash x crashed)
  then show ?case by (simp add: ok_def system_inv_def)
qed

lemma leads_to_inv: "leads_to queue processor x y \<Longrightarrow> ok x \<Longrightarrow> ok y"
  by (induction rule: rtranclp_induct) (auto intro: step_inv)

text \<open>The stream only grows, and deliveries are not taken back.\<close>

lemma step_extends:
  assumes "step queue processor x y" and "ok x"
  shows "extends (group (redis x)) (group (redis y))"
proof -
  have gok: "group_ok (group (redis x))" using assms(2) by (simp add: ok_def system_inv_def)
  show ?thesis
    using assms(1)
  proof cases
    case (publish ev s' r)
    then show ?thesis using Publish_grows [of ev] extends_add_entry [OF gok] by fastforce
  next
    case (foreign vals s' r)
    then show ?thesis using add_grows [of vals] extends_add_entry [OF gok] by fastforce
  next
    case (read name n block s' msgs)
    then show ?thesis using ReadGroup_any [of name n block] extends_deliver by fastforce
  next
    case (read_failed name n block s' e)
    then show ?thesis using ReadGroup_any [of name n block] extends_deliver by fastforce
  next
    case (claim name minIdle n s' msgs)
    then show ?thesis using ClaimPending_result [of name minIdle n "redis x"] extends_reowned by fastforce
  next
    case (claim_failed name minIdle n s' e)
    then show ?thesis using ClaimPending_result [of name minIdle n "redis x"] extends_reowned by fastforce
  next
    case (ack name m result ms s' r)
    then show ?thesis using Ack_any [of "RedisID m"] extends_acknowledge by fastforce
  qed simp_all
qed

lemma leads_to_extends:
  "leads_to queue processor x y \<Longrightarrow> ok x \<Longrightarrow> extends (group (redis x)) (group (redis y))"
proof (induction rule: rtranclp_induct)
  case (step y z)
  then have "extends (group (redis y)) (group (redis z))" by (blast intro: step_extends leads_to_inv)
  with step show ?case by (auto simp: extends_def)
qed simp

end

text \<open>The start: an empty stream with its group, an empty database, idle consumers.\<close>

definition fresh :: "group_state \<Rightarrow> tables \<Rightarrow> (string \<Rightarrow> consumer) \<Rightarrow> bool" where
  "fresh g t pcs \<longleftrightarrow> g = \<lparr>entries = [], delivered = 0, pel = Map.empty\<rparr> \<and> t = empty_tables \<and>
     pcs = (\<lambda>_. Idle)"

lemma fresh_inv: "fresh g t pcs \<Longrightarrow> system_inv c g t pcs"
  unfolding fresh_def system_inv_def
  by (auto simp: group_ok_def acked_processed_def acked_ids_def delivered_ids_def explained_def
      empty_tables_def intro!: exI [of _ "[]"])

text \<open>
  What has become of an entry: it waits to be delivered, it is on the pending list, or its
  event has a committed outcome.
\<close>

definition accounted_for :: "group_state \<Rightarrow> tables \<Rightarrow> string \<times> fields \<Rightarrow> bool" where
  "accounted_for g t e \<longleftrightarrow>
     e \<in> set (drop (delivered g) (entries g)) \<or> fst e \<in> dom (pel g) \<or>
     (\<exists>m. decodes e m \<and> EventID (Event m) \<in> dom (processed_events t))"

lemma system_inv_accounted:
  assumes "system_inv c g t pcs" and "e \<in> set (entries g)"
  shows "accounted_for g t e"
proof (cases "e \<in> set (take (delivered g) (entries g)) \<and> fst e \<notin> dom (pel g)")
  case True
  note inv = assms(1) [unfolded system_inv_def]
  have "fst e \<in> acked_ids g" using True by (auto simp: acked_ids_def delivered_ids_def)
  then obtain m where m: "RedisID m = fst e" "delivered_msg g m" "EventID (Event m) \<in> dom (processed_events t)"
    using inv unfolding acked_processed_def by blast
  then obtain e' where e': "e' \<in> set (entries g)" "decodes e' m" by (auto simp: delivered_msg_def)
  then have "fst e' = fst e" using decodes_id m(1) by fastforce
  moreover have "distinct (map fst (entries g))" using inv by (simp add: group_ok_def)
  ultimately have "e' = e" using assms(2) e'(1) by (metis eq_key_imp_eq_value prod.collapse)
  with e' m(3) show ?thesis by (auto simp: accounted_for_def)
next
  case False
  with assms(2) show ?thesis
    unfolding accounted_for_def by (metis Un_iff append_take_drop_id set_append)
qed

text \<open>
  C1: Nothing is lost.  Start with an empty stream and an empty database and let producers,
  workers, reclaimers and crashes interleave in any way, with any call failing at any time: an
  entry once in the stream stays there, and at every later moment it waits to be delivered, or
  is on the pending list (where a reclaimer finds it), or its event has been processed.
\<close>

theorem nothing_is_lost:
  assumes "redis_cursor c stream grp_name grp ahead" and "pg_session db codec view committed in_tx"
    and "fresh (grp (redis x0)) (committed (database x0)) (consumers x0)"
    and "(step (NewRedisStreamQueue c stream grp_name) (NewProcessor (NewPostgresOrderRepository db)))\<^sup>*\<^sup>* x0 x1"
    and "(step (NewRedisStreamQueue c stream grp_name) (NewProcessor (NewPostgresOrderRepository db)))\<^sup>*\<^sup>* x1 x2"
    and "e \<in> set (entries (grp (redis x1)))"
  shows "e \<in> set (entries (grp (redis x2))) \<and> accounted_for (grp (redis x2)) (committed (database x2)) e"
proof -
  note sys = ingestion.intro [OF assms(1,2)]
  have ok0: "ingestion.ok grp codec committed x0"
    using fresh_inv [OF assms(3)] by (simp add: ingestion.ok_def [OF sys])
  have ok1: "ingestion.ok grp codec committed x1"
    using ingestion.leads_to_inv [OF sys assms(4) ok0] .
  have ok2: "ingestion.ok grp codec committed x2"
    using ingestion.leads_to_inv [OF sys assms(5) ok1] .
  have "e \<in> set (entries (grp (redis x2)))"
    using ingestion.leads_to_extends [OF sys assms(5) ok1] assms(6) by (auto simp: extends_def)
  with system_inv_accounted ok2 show ?thesis by (auto simp: ingestion.ok_def [OF sys])
qed

text \<open>
  C2: Effectively once.  In every state the system can reach, however often messages were
  delivered, retried or processed twice by different consumers, the durable tables are exactly
  what the specification makes of a sequence of events in which no event id occurs twice, each
  of them the event of an entry that was delivered; and they satisfy the invariant of the
  repository.
\<close>

theorem effectively_once:
  assumes "redis_cursor c stream grp_name grp ahead" and "pg_session db codec view committed in_tx"
    and "fresh (grp (redis x0)) (committed (database x0)) (consumers x0)"
    and "(step (NewRedisStreamQueue c stream grp_name) (NewProcessor (NewPostgresOrderRepository db)))\<^sup>*\<^sup>* x0 x"
  shows "\<exists>as. committed (database x) = run_tables codec as empty_tables \<and>
    distinct (map (EventID \<circ> fst) as) \<and>
    dom (processed_events (committed (database x))) = set (map (EventID \<circ> fst) as) \<and>
    (\<forall>a \<in> set as. \<exists>m. delivered_msg (grp (redis x)) m \<and> Event m = fst a) \<and>
    consistent (committed (database x))"
proof -
  note sys = ingestion.intro [OF assms(1,2)]
  have "ingestion.ok grp codec committed x0"
    using fresh_inv [OF assms(3)] by (simp add: ingestion.ok_def [OF sys])
  then have "ingestion.ok grp codec committed x" by (rule ingestion.leads_to_inv [OF sys assms(4)])
  then obtain as where as: "explained codec (grp (redis x)) as (committed (database x))"
    by (auto simp: ingestion.ok_def [OF sys] system_inv_def)
  have run: "consistent (run_tables codec bs t)"
    if "consistent t" "\<forall>a \<in> set bs. validateEvent (fst a) = Inr (snd a)" for bs t
    using that by (induction bs arbitrary: t) (auto simp: consistent_process_tables validateEvent_known)
  then have "consistent (committed (database x))"
    using as consistent_empty unfolding explained_def by metis
  with as show ?thesis unfolding explained_def by blast
qed

interpretation sim_ingestion: ingestion redis_server stream grp_name rs_group
  "\<lambda>start s. length (rs_ahead start (rs_group s))" "pgsim c" c sim_view sim_committed sim_in_tx
  by unfold_locales

section \<open>A run\<close>

text \<open>
  One event travels through the executable server and session: it is published, read by a
  worker, committed, and the worker crashes before the acknowledgement.
\<close>

definition demo_processor :: "sim Processor" where
  "demo_processor = NewProcessor (NewPostgresOrderRepository (pgsim sim_codec))"

definition demo_begin :: "(redis_sim, sim) cluster" where
  "demo_begin = \<lparr>redis = rs_start, database = demo_start, consumers = (\<lambda>_. Idle)\<rparr>"

definition demo_published :: "(redis_sim, sim) cluster" where
  "demo_published = \<lparr>redis = demo_stream, database = demo_start, consumers = (\<lambda>_. Idle)\<rparr>"

lemma demo_fresh: "fresh (rs_group (redis demo_begin)) (sim_committed (database demo_begin)) (consumers demo_begin)"
  by (simp add: demo_begin_def rs_start_def fresh_def demo_start_ok(2))

lemma demo_publish_step: "step demo_queue demo_processor demo_begin demo_published"
  using step.publish [of demo_queue demo_sale demo_begin demo_stream _ demo_processor]
  by (cases "Publish demo_queue demo_sale rs_start") (simp add: demo_begin_def demo_published_def demo_stream_def)

lemma demo_received: "validateEvent (received demo_sale) = Inr ''{}''" "event_storable sim_codec (received demo_sale) ''{}''"
  by (simp_all add: validateEvent_def received_def demo_sale_def IsZero_def isPersistableStatus_def
      event_storable_def sim_codec_def sublist_Cons_right)

lemma demo_processed:
  obtains d r where "Process demo_processor (received demo_sale) demo_start = Some (d, Inr r)"
proof -
  obtain d where d: "ProcessEventTx (pgsim sim_codec) (received demo_sale) demo_start =
      Some (d, Inr (snd (process_tables sim_codec (received demo_sale) ''{}'' (sim_committed demo_start))))"
    by (rule demo_run [OF demo_start_ok(1) demo_received])
  show thesis
    by (rule that, simp add: Process_def demo_processor_def NewProcessor_def NewPostgresOrderRepository_def d)
qed

text \<open>The worker reads the message and commits its event.\<close>

definition demo_message :: StreamMessage where
  "demo_message = \<lparr>RedisID = ''1'', Event = received demo_sale, Attempts = 0\<rparr>"

lemma demo_read:
  obtains s where "ReadGroup demo_queue ''app-1'' 10 0 demo_stream = (s, Inr [demo_message])"
proof -
  obtain vals where vals: "eventFields demo_sale = Inr vals"
      "rs_group demo_stream = \<lparr>entries = [(''1'', vals)], delivered = 0, pel = Map.empty\<rparr>"
      "rs_faults demo_stream = []"
    by (rule demo_stream_entries)
  have "parseStreamMessage \<lparr>xm_ID = ''1'', xm_Values = vals\<rparr> = Inr demo_message"
    unfolding demo_message_def by (rule parse_eventFields [OF vals(1) demo_sale_fields(2)])
  with that vals(2,3) show thesis
    by (simp add: ReadGroup_def demo_queue_def NewRedisStreamQueue_def redis_server_def
        rs_run_def next_entries_def Let_def xmessage_def)
qed

lemma demo_committed:
  obtains s d r where "(step demo_queue demo_processor)\<^sup>*\<^sup>* demo_published
      \<lparr>redis = s, database = d, consumers = (\<lambda>_. Idle)(''app-1'' := Committed demo_message r [])\<rparr>"
proof -
  obtain s where s: "ReadGroup demo_queue ''app-1'' 10 0 demo_stream = (s, Inr [demo_message])"
    by (rule demo_read)
  obtain d r where d: "Process demo_processor (received demo_sale) demo_start = Some (d, Inr r)"
    by (rule demo_processed)
  let ?y = "\<lparr>redis = s, database = demo_start, consumers = (\<lambda>_. Idle)(''app-1'' := Holding [demo_message])\<rparr>"
  let ?z = "\<lparr>redis = s, database = d, consumers = (\<lambda>_. Idle)(''app-1'' := Committed demo_message r [])\<rparr>"
  have "step demo_queue demo_processor demo_published ?y"
    using step.read [of demo_published "''app-1''" demo_queue 10 0 s "[demo_message]" demo_processor] s
    by (simp add: demo_published_def)
  moreover have "step demo_queue demo_processor ?y ?z"
    using step.commit [of ?y "''app-1''" demo_message "[]" demo_processor d r demo_queue] d
    by (simp add: demo_message_def)
  ultimately show thesis using that by (meson converse_rtranclp_into_rtranclp r_into_rtranclp)
qed

theorem nothing_is_lost_witness:
  "\<exists>x2. (step demo_queue demo_processor)\<^sup>*\<^sup>* demo_published x2 \<and> consumers x2 ''app-1'' \<noteq> Idle \<and>
     (\<forall>e \<in> set (entries (rs_group demo_stream)).
        accounted_for (rs_group (redis x2)) (sim_committed (database x2)) e)"
proof -
  obtain s d r where path: "(step demo_queue demo_processor)\<^sup>*\<^sup>* demo_published
      \<lparr>redis = s, database = d, consumers = (\<lambda>_. Idle)(''app-1'' := Committed demo_message r [])\<rparr>"
    by (rule demo_committed)
  let ?x = "\<lparr>redis = s, database = d, consumers = (\<lambda>_. Idle)(''app-1'' := Committed demo_message r [])\<rparr>"
  have "\<forall>e \<in> set (entries (rs_group demo_stream)).
      accounted_for (rs_group (redis ?x)) (sim_committed (database ?x)) e"
    using nothing_is_lost [OF sim_cursor demo_session demo_fresh
        r_into_rtranclp [of "step demo_queue demo_processor", OF demo_publish_step,
          unfolded demo_queue_def demo_processor_def] path [unfolded demo_queue_def demo_processor_def]]
    by (simp add: demo_published_def)
  with path show ?thesis by (intro exI [of _ ?x] conjI) simp_all
qed

theorem effectively_once_witness:
  "\<exists>x. (step demo_queue demo_processor)\<^sup>*\<^sup>* demo_begin x \<and> consumers x ''app-1'' \<noteq> Idle \<and>
     consistent (sim_committed (database x)) \<and>
     (\<exists>as. sim_committed (database x) = run_tables sim_codec as empty_tables \<and> distinct (map (EventID \<circ> fst) as))"
proof -
  obtain s d r where "(step demo_queue demo_processor)\<^sup>*\<^sup>* demo_published
      \<lparr>redis = s, database = d, consumers = (\<lambda>_. Idle)(''app-1'' := Committed demo_message r [])\<rparr>"
    by (rule demo_committed)
  with demo_publish_step have path: "(step demo_queue demo_processor)\<^sup>*\<^sup>* demo_begin
      \<lparr>redis = s, database = d, consumers = (\<lambda>_. Idle)(''app-1'' := Committed demo_message r [])\<rparr>"
    by (rule converse_rtranclp_into_rtranclp)
  from effectively_once [OF sim_cursor demo_session demo_fresh path [unfolded demo_queue_def demo_processor_def]]
  obtain as where "sim_committed d = run_tables sim_codec as empty_tables" "distinct (map (EventID \<circ> fst) as)"
      "consistent (sim_committed d)"
    by auto
  with path show ?thesis
    by (intro exI [of _ "\<lparr>redis = s, database = d,
          consumers = (\<lambda>_. Idle)(''app-1'' := Committed demo_message r [])\<rparr>"]) auto
qed

end
