(* ===== verification/Worker_Steps.thy ===== *)
theory Worker_Steps
  imports Ingestion
begin

text \<open>
  The workers and the reclaimer on the queue adapter and the processor, wired as in
  \<open>cmd/api/main.go\<close>: their code takes only steps of the relation in \<open>Ingestion\<close>, so that the
  theorems there speak about the code; and it returns once the context is done.
\<close>

section \<open>Wiring\<close>

text \<open>The outside world: Redis, the database, and the clock and the context.\<close>

record ('r, 'd, 'e) outside =
  o_redis :: 'r
  o_database :: 'd
  o_environment :: 'e

text \<open>
  The adapter and the processor as the workers see them.  The contexts go to the client
  libraries, which may report a cancellation at any call.
\<close>

definition onRedis :: "('r \<Rightarrow> 'r \<times> 'a) \<Rightarrow> ('r, 'd, 'e) outside \<Rightarrow> ('r, 'd, 'e) outside \<times> 'a" where
  "onRedis f w = (case f (o_redis w) of (s', a) \<Rightarrow> (w\<lparr>o_redis := s'\<rparr>, a))"

definition streamQueueOf :: "'r RedisStreamQueue \<Rightarrow> ('r, 'd, 'e) outside StreamQueue" where
  "streamQueueOf q =
     \<lparr>sq_ReadGroup = (\<lambda>ctx name n block. onRedis (ReadGroup q name n block)),
      sq_Ack = (\<lambda>ctx i. onRedis (Ack q i))\<rparr>"

definition pendingQueueOf :: "'r RedisStreamQueue \<Rightarrow> ('r, 'd, 'e) outside PendingQueue" where
  "pendingQueueOf q =
     \<lparr>pq_ClaimPending = (\<lambda>ctx name minIdle n w.
        case ClaimPending q name minIdle n (o_redis w) of
          None \<Rightarrow> None | Some (s', r) \<Rightarrow> Some (w\<lparr>o_redis := s'\<rparr>, r)),
      pq_Ack = (\<lambda>ctx i. onRedis (Ack q i))\<rparr>"

definition processorOf :: "'d Processor \<Rightarrow> ('r, 'd, 'e) outside EventProcessor" where
  "processorOf pr =
     \<lparr>ep_Process = (\<lambda>ctx ev w.
        case Process pr ev (o_database w) of
          None \<Rightarrow> None | Some (d', r) \<Rightarrow> Some (w\<lparr>o_database := d'\<rparr>, r))\<rparr>"

definition onEnvironment :: "('e \<Rightarrow> 'e \<times> 'a) \<Rightarrow> ('r, 'd, 'e) outside \<Rightarrow> ('r, 'd, 'e) outside \<times> 'a" where
  "onEnvironment f w = (case f (o_environment w) of (e', a) \<Rightarrow> (w\<lparr>o_environment := e'\<rparr>, a))"

definition runtimeOf :: "'e runtime \<Rightarrow> ('r, 'd, 'e) outside runtime" where
  "runtimeOf rt =
     \<lparr>rt_Err = onEnvironment (rt_Err rt), rt_TimerFirst = (\<lambda>delay. onEnvironment (rt_TimerFirst rt delay))\<rparr>"

definition wired :: "'r RedisStreamQueue \<Rightarrow> 'd Processor \<Rightarrow> ('r, 'd, 'e) outside Pool \<Rightarrow> bool" where
  "wired q pr p \<longleftrightarrow> p_queue p = streamQueueOf q \<and> p_processor p = processorOf pr"

definition wired_reclaimer :: "'r RedisStreamQueue \<Rightarrow> 'd Processor \<Rightarrow> ('r, 'd, 'e) outside Reclaimer \<Rightarrow> bool" where
  "wired_reclaimer q pr r \<longleftrightarrow> r_queue r = pendingQueueOf q \<and> r_processor r = processorOf pr"

text \<open>The cluster as seen by a process in a state, with its consumers at given points.\<close>

definition cluster_at :: "('r, 'd, 'e) outside process_state \<Rightarrow> (string \<Rightarrow> consumer) \<Rightarrow> ('r, 'd) cluster" where
  "cluster_at st pcs = \<lparr>redis = o_redis (world st), database = o_database (world st), consumers = pcs\<rparr>"

section \<open>The code takes steps\<close>

named_theorems wiring \<open>the wired interfaces\<close>

lemmas [wiring] = wired_def wired_reclaimer_def streamQueueOf_def pendingQueueOf_def processorOf_def
  onRedis_def

lemma world_simps [simp]:
  "world (printf l line st) = world st" "world (ifMetrics b f st) = world st"
  "collector (printf l line st) = collector st" "logged (ifMetrics b f st) = logged st"
  "successfulProcessed (printf l line st) = successfulProcessed st"
  "successfulProcessed (ifMetrics b f st) = successfulProcessed st"
  "logged (printf l line st) = logged st @ [(l, line)]"
  by (simp_all add: printf_def ifMetrics_def)

lemma cluster_at_world: "world st = world st' \<Longrightarrow> cluster_at st pcs = cluster_at st' pcs"
  by (simp add: cluster_at_def)

lemmas leads_to_trans = rtranclp_trans [of "step q pr" for q pr]

text \<open>Processing the head of a batch, and acknowledging it.\<close>

lemma commit_steps:
  assumes "Process pr (Event m) (o_database w) = Some (d', Inr res)"
  shows "step q pr \<lparr>redis = o_redis w, database = o_database w, consumers = pcs(name := Holding (m # ms))\<rparr>
    \<lparr>redis = o_redis w, database = d', consumers = pcs(name := Committed m res ms)\<rparr>"
  using step.commit [of "\<lparr>redis = o_redis w, database = o_database w, consumers = pcs(name := Holding (m # ms))\<rparr>"
      name m ms pr d' res q] assms by simp

lemma failed_steps:
  assumes "Process pr (Event m) (o_database w) = Some (d', Inl e)"
  shows "step q pr \<lparr>redis = o_redis w, database = o_database w, consumers = pcs(name := Holding (m # ms))\<rparr>
    \<lparr>redis = o_redis w, database = d', consumers = pcs(name := Holding ms)\<rparr>"
  using step.process_failed [of "\<lparr>redis = o_redis w, database = o_database w, consumers = pcs(name := Holding (m # ms))\<rparr>"
      name m ms pr d' e q] assms by simp

lemma ack_steps:
  assumes "Ack q (RedisID m) s = (s', r)"
  shows "step q pr \<lparr>redis = s, database = d, consumers = pcs(name := Committed m res ms)\<rparr>
    \<lparr>redis = s', database = d, consumers = pcs(name := Holding ms)\<rparr>"
  using step.ack [of "\<lparr>redis = s, database = d, consumers = pcs(name := Committed m res ms)\<rparr>"
      name m res ms q s' r pr] assms by simp

lemma skip_steps:
  "step q pr \<lparr>redis = s, database = d, consumers = pcs(name := Committed m res ms)\<rparr>
    \<lparr>redis = s, database = d, consumers = pcs(name := Holding ms)\<rparr>"
  using step.skip_ack [of "\<lparr>redis = s, database = d, consumers = pcs(name := Committed m res ms)\<rparr>"
      name m res ms q pr] by simp

lemma handleMessage_steps:
  assumes "wired q pr p" and "handleMessage p ctx name m st = Some st'"
  shows "leads_to q pr (cluster_at st (pcs(name := Holding (m # ms)))) (cluster_at st' (pcs(name := Holding ms)))"
proof -
  obtain d1 r where proc: "Process pr (Event m) (o_database (world st)) = Some (d1, r)"
    using assms by (auto simp: handleMessage_def wiring split: option.splits prod.splits)
  show ?thesis
  proof (cases r)
    case (Inl e)
    with proc assms show ?thesis
      using failed_steps [of pr m "world st" d1 e q pcs name ms]
      by (auto simp: handleMessage_def wiring cluster_at_def)
  next
    case (Inr res)
    let ?mid = "\<lparr>redis = o_redis (world st), database = d1, consumers = pcs(name := Committed m res ms)\<rparr>"
    have "step q pr (cluster_at st (pcs(name := Holding (m # ms)))) ?mid"
      using commit_steps [of pr m "world st" d1 res q pcs name ms] proc Inr by (simp add: cluster_at_def)
    moreover have "step q pr ?mid (cluster_at st' (pcs(name := Holding ms)))"
      using assms proc Inr skip_steps [of q pr "o_redis (world st)" d1 pcs name m res ms]
        ack_steps [of q m "o_redis (world st)" _ _ pr d1 pcs name res ms]
      by (auto simp: handleMessage_def wiring cluster_at_def Let_def
          split: option.splits prod.splits if_splits)
    ultimately show ?thesis by (meson converse_rtranclp_into_rtranclp r_into_rtranclp)
  qed
qed

lemma reclaimMessage_steps:
  assumes "wired_reclaimer q pr r" and "reclaimMessage r ctx m st = Some st'"
  shows "leads_to q pr (cluster_at st (pcs(name := Holding (m # ms)))) (cluster_at st' (pcs(name := Holding ms)))"
proof -
  obtain d1 x where proc: "Process pr (Event m) (o_database (world st)) = Some (d1, x)"
    using assms by (auto simp: reclaimMessage_def wiring Let_def split: option.splits prod.splits)
  show ?thesis
  proof (cases x)
    case (Inl e)
    with proc assms show ?thesis
      using failed_steps [of pr m "world st" d1 e q pcs name ms]
      by (auto simp: reclaimMessage_def wiring cluster_at_def Let_def)
  next
    case (Inr res)
    let ?mid = "\<lparr>redis = o_redis (world st), database = d1, consumers = pcs(name := Committed m res ms)\<rparr>"
    have "step q pr (cluster_at st (pcs(name := Holding (m # ms)))) ?mid"
      using commit_steps [of pr m "world st" d1 res q pcs name ms] proc Inr by (simp add: cluster_at_def)
    moreover have "step q pr ?mid (cluster_at st' (pcs(name := Holding ms)))"
      using assms proc Inr ack_steps [of q m "o_redis (world st)" _ _ pr d1 pcs name res ms]
      by (auto simp: reclaimMessage_def wiring cluster_at_def Let_def
          split: option.splits prod.splits if_splits)
    ultimately show ?thesis by (meson converse_rtranclp_into_rtranclp r_into_rtranclp)
  qed
qed

lemma batch_end: "step q pr (cluster_at st (pcs(name := Holding []))) (cluster_at st (pcs(name := Idle)))"
  using step.batch_done [of "cluster_at st (pcs(name := Holding []))" name q pr] by (simp add: cluster_at_def)

lemma handleMessages_steps:
  assumes "wired q pr p" and "handleMessages p ctx name ms st = Some st'"
  shows "leads_to q pr (cluster_at st (pcs(name := Holding ms))) (cluster_at st' (pcs(name := Idle)))"
  using assms(2)
proof (induction ms arbitrary: st)
  case Nil
  then have "st' = st" by simp
  then show ?case using r_into_rtranclp [of "step q pr", OF batch_end [of q pr st pcs name]] by (simp only:)
next
  case (Cons m ms)
  then obtain st1 where st1: "handleMessage p ctx name m st = Some st1" "handleMessages p ctx name ms st1 = Some st'"
    by (auto simp: bind_eq_Some_conv)
  from handleMessage_steps [OF assms(1) st1(1)] Cons.IH [OF st1(2)] show ?case by (rule leads_to_trans)
qed

lemma reclaimMessages_steps:
  assumes "wired_reclaimer q pr r" and "reclaimMessages r ctx ms st = Some st'"
  shows "leads_to q pr (cluster_at st (pcs(name := Holding ms))) (cluster_at st' (pcs(name := Idle)))"
  using assms(2)
proof (induction ms arbitrary: st)
  case Nil
  then have "st' = st" by simp
  then show ?case using r_into_rtranclp [of "step q pr", OF batch_end [of q pr st pcs name]] by (simp only:)
next
  case (Cons m ms)
  then obtain st1 where st1: "reclaimMessage r ctx m st = Some st1" "reclaimMessages r ctx ms st1 = Some st'"
    by (auto simp: bind_eq_Some_conv)
  from reclaimMessage_steps [OF assms(1) st1(1)] Cons.IH [OF st1(2)] show ?case by (rule leads_to_trans)
qed

text \<open>Looking at the clock and the context changes neither Redis nor the database.\<close>

lemma runtime_frame:
  assumes "rt_Err (runtimeOf rt) w = (w', b) \<or> rt_TimerFirst (runtimeOf rt) delay w = (w', b)"
  shows "o_redis w' = o_redis w \<and> o_database w' = o_database w"
  using assms by (auto simp: runtimeOf_def onEnvironment_def split: prod.splits)

lemma cluster_at_frame:
  assumes "o_redis w = o_redis (world st)" and "o_database w = o_database (world st)" and "world st' = w"
  shows "cluster_at st' pcs = cluster_at st pcs"
  using assms by (simp add: cluster_at_def)

text \<open>Reading and claiming.\<close>

lemma read_steps:
  assumes "wired q pr p" and "sq_ReadGroup (p_queue p) ctx name n block (world st) = (w, r)"
  shows "step q pr (cluster_at st (pcs(name := Idle)))
    (cluster_at (st\<lparr>world := w\<rparr>) (pcs(name := (case r of Inl _ \<Rightarrow> Idle | Inr ms \<Rightarrow> Holding ms))))"
proof -
  let ?x = "cluster_at st (pcs(name := Idle))"
  obtain s' where s': "ReadGroup q name n block (o_redis (world st)) = (s', r)" "w = (world st)\<lparr>o_redis := s'\<rparr>"
    using assms by (auto simp: wiring split: prod.splits)
  show ?thesis
    using step.read [of ?x name q n block s' _ pr] step.read_failed [of ?x name q n block s' _ pr] s'
    by (cases r) (auto simp: cluster_at_def)
qed

lemma claim_steps:
  assumes "wired_reclaimer q pr r"
    and "pq_ClaimPending (r_queue r) ctx name minIdle n (world st) = Some (w, res)"
  shows "step q pr (cluster_at st (pcs(name := Idle)))
    (cluster_at (st\<lparr>world := w\<rparr>) (pcs(name := (case res of Inl _ \<Rightarrow> Idle | Inr ms \<Rightarrow> Holding ms))))"
proof -
  let ?x = "cluster_at st (pcs(name := Idle))"
  obtain s' where s': "ClaimPending q name minIdle n (o_redis (world st)) = Some (s', res)"
      "w = (world st)\<lparr>o_redis := s'\<rparr>"
    using assms by (auto simp: wiring split: prod.splits option.splits)
  show ?thesis
    using step.claim [of ?x name q minIdle n s' _ pr] step.claim_failed [of ?x name q minIdle n s' _ pr] s'
    by (cases res) (auto simp: cluster_at_def)
qed

text \<open>Polling the context and reading, as the loop begins.\<close>

lemma poll_read_steps:
  assumes "wired q pr p" and "rt_Err (runtimeOf rt) (world st) = (w1, b)"
    and "sq_ReadGroup (p_queue p) ctx name n block w1 = (w2, r)"
  shows "step q pr (cluster_at st (pcs(name := Idle)))
    (cluster_at (st\<lparr>world := w2\<rparr>) (pcs(name := (case r of Inl _ \<Rightarrow> Idle | Inr ms \<Rightarrow> Holding ms))))"
proof -
  have "cluster_at (st\<lparr>world := w1\<rparr>) (pcs(name := Idle)) = cluster_at st (pcs(name := Idle))"
    using runtime_frame [OF disjI1 [OF assms(2)]] by (intro cluster_at_frame) auto
  with read_steps [of q pr p ctx name n block "st\<lparr>world := w1\<rparr>" w2 r pcs] assms(1,3) show ?thesis
    by simp
qed

lemma workerLoop_steps:
  assumes "workerLoop (runtimeOf rt) p ctx name st = Some st'" and "wired q pr p"
  shows "leads_to q pr (cluster_at st (pcs(name := Idle))) (cluster_at st' (pcs(name := Idle)))"
  using assms(1)
proof (induction rt' \<equiv> "runtimeOf rt :: ('a, 'b, 'c) outside runtime" p' \<equiv> p ctx' \<equiv> ctx name' \<equiv> name st st'
    rule: workerLoop.raw_induct [rotated, consumes 1])
  case (1 loop st st')
  let ?cl = "\<lambda>st. cluster_at st (pcs(name := Idle))"
  obtain w1 stopped where w1: "rt_Err (runtimeOf rt) (world st) = (w1, stopped)" by (meson surj_pair)
  have same1: "?cl (st\<lparr>world := w1\<rparr>) = ?cl st"
    using runtime_frame [OF disjI1 [OF w1]] by (intro cluster_at_frame) auto
  show ?case
  proof (cases stopped)
    case True
    with 1(2) w1 same1 show ?thesis by simp
  next
    case False
    obtain w2 r where w2: "sq_ReadGroup (p_queue p) ctx name (ReadCount (p_config p)) (Block (p_config p)) w1 = (w2, r)"
      by (meson surj_pair)
    note read = poll_read_steps [OF assms(2) w1 w2, of pcs]
    show ?thesis
    proof (cases r)
      case (Inr ms)
      with 1(2) w1 w2 False obtain st2 where st2:
          "handleMessages p (WithoutCancel ctx) name ms (st\<lparr>world := w2\<rparr>) = Some st2"
          "loop (runtimeOf rt) p ctx name st2 = Some st'"
        by (auto simp: bind_eq_Some_conv)
      have "leads_to q pr (cluster_at (st\<lparr>world := w2\<rparr>) (pcs(name := Holding ms))) (?cl st2)"
        by (rule handleMessages_steps [OF assms(2) st2(1)])
      with read Inr have "leads_to q pr (?cl st) (?cl st2)"
        by (simp add: converse_rtranclp_into_rtranclp)
      moreover have "leads_to q pr (?cl st2) (?cl st')" by (rule 1(1) [OF st2(2)])
      ultimately show ?thesis by (rule leads_to_trans)
    next
      case (Inl e)
      obtain w3 cancelled where w3: "rt_Err (runtimeOf rt) w2 = (w3, cancelled)" by (meson surj_pair)
      obtain w4 fired where w4: "waitForRetry (runtimeOf rt) (ReadErrorBackoff (p_config p)) w3 = (w4, fired)"
        by (meson surj_pair)
      note frame3 = runtime_frame [OF disjI1 [OF w3]]
      note frame4 = runtime_frame [OF disjI2 [OF w4 [unfolded waitForRetry_def]]]
      have to2: "leads_to q pr (?cl st) (?cl (st\<lparr>world := w2\<rparr>))"
        using read Inl by (simp add: r_into_rtranclp)
      have same: "?cl y = ?cl (st\<lparr>world := w2\<rparr>)" if "world y = w3 \<or> world y = w4" for y
        using that frame3 frame4 by (intro cluster_at_frame [where w = "world y"]) auto
      show ?thesis
      proof (cases "cancelled \<or> isCanceled e \<or> \<not> fired")
        case True
        with 1(2) w1 w2 w3 w4 False Inl have "world st' = w3 \<or> world st' = w4"
          by (auto simp: Let_def split: if_splits)
        with to2 same show ?thesis by simp
      next
        case again: False
        let ?st4 = "(printf (p_logger p) (ReadFailed name e) (st\<lparr>world := w3\<rparr>))\<lparr>world := w4\<rparr>"
        have "loop (runtimeOf rt) p ctx name ?st4 = Some st'"
          using 1(2) w1 w2 w3 w4 False Inl again by (simp add: Let_def)
        then have "leads_to q pr (?cl ?st4) (?cl st')" by (rule 1(1))
        with to2 same [of ?st4] show ?thesis by (simp add: leads_to_trans)
      qed
    qed
  qed
qed

lemma reclaim_steps:
  assumes "reclaim (runtimeOf rt) r ctx st = Some st'" and "wired_reclaimer q pr r"
    and "name = ConsumerName (r_config r)"
  shows "leads_to q pr (cluster_at st (pcs(name := Idle))) (cluster_at st' (pcs(name := Idle)))"
proof -
  obtain w1 res where w1: "pq_ClaimPending (r_queue r) ctx name (MinIdle (r_config r)) (Count (r_config r)) (world st) =
      Some (w1, res)"
    using assms by (auto simp: reclaim_def split: option.splits)
  note claim = claim_steps [OF assms(2) w1, of pcs]
  show ?thesis
  proof (cases res)
    case (Inr ms)
    with assms w1 have "reclaimMessages r (WithoutCancel ctx) ms (st\<lparr>world := w1\<rparr>) = Some st'"
      by (simp add: reclaim_def)
    from reclaimMessages_steps [OF assms(2) this, of pcs name] claim Inr show ?thesis
      by (simp add: converse_rtranclp_into_rtranclp)
  next
    case (Inl e)
    obtain w2 cancelled where w2: "rt_Err (runtimeOf rt) w1 = (w2, cancelled)" by (meson surj_pair)
    with assms w1 Inl have "world st' = w2" by (auto simp: reclaim_def split: if_splits)
    then have "cluster_at st' (pcs(name := Idle)) = cluster_at (st\<lparr>world := w1\<rparr>) (pcs(name := Idle))"
      using runtime_frame [OF disjI1 [OF w2]] by (intro cluster_at_frame) auto
    with claim Inl show ?thesis by (simp add: r_into_rtranclp)
  qed
qed

lemma reclaimLoop_steps:
  assumes "reclaimLoop (runtimeOf rt) r ctx delay st = Some st'" and "wired_reclaimer q pr r"
    and "name = ConsumerName (r_config r)"
  shows "leads_to q pr (cluster_at st (pcs(name := Idle))) (cluster_at st' (pcs(name := Idle)))"
  using assms(1)
proof (induction rt' \<equiv> "runtimeOf rt :: ('a, 'b, 'c) outside runtime" r' \<equiv> r ctx' \<equiv> ctx delay st st'
    rule: reclaimLoop.raw_induct [rotated, consumes 1])
  case (1 loop delay st st')
  let ?cl = "\<lambda>st. cluster_at st (pcs(name := Idle))"
  obtain w1 fired where w1: "rt_TimerFirst (runtimeOf rt) delay (world st) = (w1, fired)" by (meson surj_pair)
  have same: "?cl (st\<lparr>world := w1\<rparr>) = ?cl st"
    using runtime_frame [OF disjI2 [OF w1]] by (intro cluster_at_frame) auto
  show ?case
  proof (cases fired)
    case True
    with 1(2) w1 obtain st1 where st1: "reclaim (runtimeOf rt) r ctx (st\<lparr>world := w1\<rparr>) = Some st1"
        "loop (runtimeOf rt) r ctx (Interval (r_config r)) st1 = Some st'"
      by (auto simp: bind_eq_Some_conv)
    from reclaim_steps [OF st1(1) assms(2,3), of pcs] 1(1) [OF st1(2)] same show ?thesis
      by (simp add: leads_to_trans)
  qed (use 1(2) w1 same in simp)
qed

text \<open>
  C5: The code takes the steps.  A complete run of \<open>runWorker\<close> or of the reclaimer's \<open>Run\<close> on
  the queue adapter and the processor is a sequence of steps of the cluster, from the consumer
  being idle to it being idle again, whatever the other consumers are doing; so all that is
  shown about the steps holds for the code.
\<close>

theorem consumers_take_steps:
  assumes "wired q pr p" and "wired_reclaimer q pr r"
  shows "(runWorker (runtimeOf rt) p ctx name st = Some st' \<longrightarrow>
      (step q pr)\<^sup>*\<^sup>* (cluster_at st (pcs(name := Idle))) (cluster_at st' (pcs(name := Idle)))) \<and>
    (RunReclaimer (runtimeOf rt) r ctx st = Some st' \<longrightarrow>
      (step q pr)\<^sup>*\<^sup>* (cluster_at st (pcs(ConsumerName (r_config r) := Idle)))
        (cluster_at st' (pcs(ConsumerName (r_config r) := Idle))))"
proof (intro conjI impI)
  assume "runWorker (runtimeOf rt) p ctx name st = Some st'"
  then obtain y where y: "workerLoop (runtimeOf rt) p ctx name (printf (p_logger p) (WorkerStarted name) st) = Some y"
      "st' = printf (p_logger p) (WorkerStopped name) y"
    by (auto simp: runWorker_def)
  with workerLoop_steps [OF y(1) assms(1), of pcs] show
    "(step q pr)\<^sup>*\<^sup>* (cluster_at st (pcs(name := Idle))) (cluster_at st' (pcs(name := Idle)))"
    by (simp add: cluster_at_def)
next
  let ?name = "ConsumerName (r_config r)"
  assume "RunReclaimer (runtimeOf rt) r ctx st = Some st'"
  then obtain y where y: "reclaimLoop (runtimeOf rt) r ctx 0 (printf (r_logger r) (ReclaimerStarted ?name) st) = Some y"
      "st' = printf (r_logger r) (ReclaimerStopped ?name) y"
    by (auto simp: RunReclaimer_def)
  with reclaimLoop_steps [OF y(1) assms(2) refl, of pcs] show
    "(step q pr)\<^sup>*\<^sup>* (cluster_at st (pcs(?name := Idle))) (cluster_at st' (pcs(?name := Idle)))"
    by (simp add: cluster_at_def)
qed

section \<open>The code returns\<close>

text \<open>
  A context that will be done: each time it is found not done yet, and each time a timer wins
  against it, the rest of its life has become shorter.
\<close>

locale mortal_context =
  fixes rt :: "'e runtime" and patience :: "'e \<Rightarrow> nat"
  assumes err_polled: "rt_Err rt e = (e', stopped) \<Longrightarrow>
      patience e' \<le> patience e \<and> (\<not> stopped \<longrightarrow> patience e' < patience e)"
    and timer_polled: "rt_TimerFirst rt delay e = (e', fired) \<Longrightarrow>
      patience e' \<le> patience e \<and> (fired \<longrightarrow> patience e' < patience e)"

text \<open>A context that is done after it was looked at a number of times.\<close>

definition countdown :: "nat runtime" where
  "countdown = \<lparr>rt_Err = (\<lambda>n. (n - 1, n = 0)), rt_TimerFirst = (\<lambda>delay n. (n - 1, n \<noteq> 0))\<rparr>"

interpretation countdown: mortal_context countdown "\<lambda>n. n"
  by unfold_locales (auto simp: countdown_def)

lemma handleMessage_environment:
  assumes "wired q pr p" and "handleMessage p ctx name m st = Some st'"
  shows "o_environment (world st') = o_environment (world st)"
  using assms
  by (auto simp: handleMessage_def wiring Let_def split: option.splits prod.splits sum.splits if_splits)

lemma reclaimMessage_environment:
  assumes "wired_reclaimer q pr r" and "reclaimMessage r ctx m st = Some st'"
  shows "o_environment (world st') = o_environment (world st)"
  using assms
  by (auto simp: reclaimMessage_def wiring Let_def split: option.splits prod.splits sum.splits if_splits)

text \<open>With a processor that returns, so do the batches, and they leave the context alone.\<close>

lemma handleMessages_returns:
  assumes "wired q pr p" and "\<And>ev d. Process pr ev d \<noteq> None"
  shows "\<exists>st'. handleMessages p ctx name ms st = Some st' \<and> o_environment (world st') = o_environment (world st)"
proof (induction ms arbitrary: st)
  case (Cons m ms)
  obtain d' r where "Process pr (Event m) (o_database (world st)) = Some (d', r)"
    using assms(2) by fastforce
  then have "handleMessage p ctx name m st \<noteq> None"
    using assms(1)
    by (auto simp: handleMessage_def wiring Let_def split: prod.split option.split sum.split)
  then obtain st1 where st1: "handleMessage p ctx name m st = Some st1" by blast
  with Cons [of st1] handleMessage_environment [OF assms(1) st1] show ?case by auto
qed simp

lemma reclaimMessages_returns:
  assumes "wired_reclaimer q pr r" and "\<And>ev d. Process pr ev d \<noteq> None"
  shows "\<exists>st'. reclaimMessages r ctx ms st = Some st' \<and> o_environment (world st') = o_environment (world st)"
proof (induction ms arbitrary: st)
  case (Cons m ms)
  obtain d' x where "Process pr (Event m) (o_database (world st)) = Some (d', x)"
    using assms(2) by fastforce
  then have "reclaimMessage r ctx m st \<noteq> None"
    using assms(1)
    by (auto simp: reclaimMessage_def wiring Let_def split: prod.split option.split sum.split)
  then obtain st1 where st1: "reclaimMessage r ctx m st = Some st1" by blast
  with Cons [of st1] reclaimMessage_environment [OF assms(1) st1] show ?case by auto
qed simp

context mortal_context
begin

lemma Err_runtimeOf:
  assumes "rt_Err (runtimeOf rt) w = (w', stopped)"
  shows "patience (o_environment w') \<le> patience (o_environment w)"
    and "\<not> stopped \<Longrightarrow> patience (o_environment w') < patience (o_environment w)"
  using assms err_polled [of "o_environment w"]
  by (auto simp: runtimeOf_def onEnvironment_def split: prod.splits)

lemma Timer_runtimeOf:
  assumes "rt_TimerFirst (runtimeOf rt) delay w = (w', fired)"
  shows "patience (o_environment w') \<le> patience (o_environment w)"
    and "fired \<Longrightarrow> patience (o_environment w') < patience (o_environment w)"
  using assms timer_polled [of delay "o_environment w"]
  by (auto simp: runtimeOf_def onEnvironment_def split: prod.splits)

lemma workerLoop_returns:
  assumes "wired q pr p" and "\<And>ev d. Process pr ev d \<noteq> None"
  shows "\<exists>st'. workerLoop (runtimeOf rt) p ctx name st = Some st'"
proof (induction "patience (o_environment (world st))" arbitrary: st rule: less_induct)
  case less
  note unfold = workerLoop.simps [of "runtimeOf rt" p ctx name st]
  obtain w1 stopped where w1: "rt_Err (runtimeOf rt) (world st) = (w1, stopped)" by (meson surj_pair)
  obtain w2 r where w2: "sq_ReadGroup (p_queue p) ctx name (ReadCount (p_config p)) (Block (p_config p)) w1 = (w2, r)"
    by (meson surj_pair)
  have env2: "o_environment w2 = o_environment w1"
    using w2 assms(1) by (auto simp: wiring split: prod.splits)
  show ?case
  proof (cases stopped)
    case False
    then have dec: "patience (o_environment w2) < patience (o_environment (world st))"
      using Err_runtimeOf(2) [OF w1] env2 by simp
    show ?thesis
    proof (cases r)
      case (Inr ms)
      obtain st2 where st2: "handleMessages p (WithoutCancel ctx) name ms (st\<lparr>world := w2\<rparr>) = Some st2"
          "o_environment (world st2) = o_environment w2"
        using handleMessages_returns [OF assms, of "WithoutCancel ctx" name ms "st\<lparr>world := w2\<rparr>"] by auto
      have "\<exists>st'. workerLoop (runtimeOf rt) p ctx name st2 = Some st'"
        using less [of st2] st2(2) dec by simp
      with w1 w2 False Inr st2(1) show ?thesis by (simp add: unfold)
    next
      case (Inl e)
      obtain w3 cancelled where w3: "rt_Err (runtimeOf rt) w2 = (w3, cancelled)" by (meson surj_pair)
      obtain w4 fired where w4: "waitForRetry (runtimeOf rt) (ReadErrorBackoff (p_config p)) w3 = (w4, fired)"
        by (meson surj_pair)
      have "patience (o_environment w4) < patience (o_environment (world st))"
        using dec Err_runtimeOf(1) [OF w3] Timer_runtimeOf(1) [OF w4 [unfolded waitForRetry_def]] by simp
      with less [of "(printf (p_logger p) (ReadFailed name e) (st\<lparr>world := w3\<rparr>))\<lparr>world := w4\<rparr>"]
        w1 w2 w3 w4 False Inl show ?thesis
        by (simp add: unfold Let_def)
    qed
  qed (simp add: unfold w1)
qed

lemma reclaim_returns:
  assumes "wired_reclaimer q pr r" and "\<And>ev d. Process pr ev d \<noteq> None"
    and "\<And>name minIdle n s. ClaimPending q name minIdle n s \<noteq> None"
  shows "\<exists>st'. reclaim (runtimeOf rt) r ctx st = Some st' \<and>
    patience (o_environment (world st')) \<le> patience (o_environment (world st))"
proof -
  let ?name = "ConsumerName (r_config r)" and ?idle = "MinIdle (r_config r)" and ?n = "Count (r_config r)"
  obtain s' x where claim: "ClaimPending q ?name ?idle ?n (o_redis (world st)) = Some (s', x)"
    using assms(3) by fastforce
  let ?w1 = "(world st)\<lparr>o_redis := s'\<rparr>"
  have w1: "pq_ClaimPending (r_queue r) ctx ?name ?idle ?n (world st) = Some (?w1, x)"
    using claim assms(1) by (simp add: wiring)
  show ?thesis
  proof (cases x)
    case (Inr ms)
    with w1 reclaimMessages_returns [OF assms(1,2), of "WithoutCancel ctx" ms "st\<lparr>world := ?w1\<rparr>"]
    show ?thesis by (auto simp: reclaim_def)
  next
    case (Inl e)
    obtain w2 cancelled where w2: "rt_Err (runtimeOf rt) ?w1 = (w2, cancelled)" by (meson surj_pair)
    with w1 Inl Err_runtimeOf(1) [OF w2] show ?thesis by (simp add: reclaim_def)
  qed
qed

lemma reclaimLoop_returns:
  assumes "wired_reclaimer q pr r" and "\<And>ev d. Process pr ev d \<noteq> None"
    and "\<And>name minIdle n s. ClaimPending q name minIdle n s \<noteq> None"
  shows "\<exists>st'. reclaimLoop (runtimeOf rt) r ctx delay st = Some st'"
proof (induction "patience (o_environment (world st))" arbitrary: st delay rule: less_induct)
  case less
  note unfold = reclaimLoop.simps [of "runtimeOf rt" r ctx delay st]
  obtain w1 fired where w1: "rt_TimerFirst (runtimeOf rt) delay (world st) = (w1, fired)" by (meson surj_pair)
  show ?case
  proof (cases fired)
    case True
    obtain st1 where st1: "reclaim (runtimeOf rt) r ctx (st\<lparr>world := w1\<rparr>) = Some st1"
        "patience (o_environment (world st1)) \<le> patience (o_environment w1)"
      using reclaim_returns [OF assms, of ctx "st\<lparr>world := w1\<rparr>"] by auto
    with less [of st1] Timer_runtimeOf(2) [OF w1 True] w1 True show ?thesis by (simp add: unfold)
  qed (simp add: unfold w1)
qed

end

text \<open>
  C34: Shutdown.  On any database session and any Redis that obey the laws, and whatever fails,
  a worker and a reclaimer return after the context has been cancelled: they finish the batch at
  hand, start no other, and log that they have stopped.
\<close>

theorem consumers_stop:
  assumes "mortal_context rt patience" and "redis_cursor c stream grp_name grp ahead"
    and "pg_session db codec view committed in_tx"
    and "wired (NewRedisStreamQueue c stream grp_name) (NewProcessor (NewPostgresOrderRepository db)) p"
    and "wired_reclaimer (NewRedisStreamQueue c stream grp_name) (NewProcessor (NewPostgresOrderRepository db)) r"
  shows "(\<exists>st'. runWorker (runtimeOf rt) p ctx name st = Some st' \<and>
      last (logged st') = (p_logger p, WorkerStopped name)) \<and>
    (\<exists>st'. RunReclaimer (runtimeOf rt) r ctx st = Some st' \<and>
      last (logged st') = (r_logger r, ReclaimerStopped (ConsumerName (r_config r))))"
proof -
  have proc: "Process (NewProcessor (NewPostgresOrderRepository db)) ev d \<noteq> None" for ev d
    using pg_session.processor_returns [OF assms(3)] by simp
  have claim: "ClaimPending (NewRedisStreamQueue c stream grp_name) nm minIdle n s \<noteq> None" for nm minIdle n s
    using redis_cursor.ClaimPending_result [OF assms(2), of nm minIdle n s] by auto
  from mortal_context.workerLoop_returns [OF assms(1,4) proc]
    mortal_context.reclaimLoop_returns [OF assms(1,5) proc claim]
  show ?thesis unfolding runWorker_def RunReclaimer_def by fastforce
qed

section \<open>A process\<close>

text \<open>A worker pool and a reclaimer on the executable server and session.\<close>

definition demo_pool :: "(redis_sim, sim, nat) outside Pool" where
  "demo_pool = projr (NewPool (Some (streamQueueOf demo_queue)) (Some (processorOf demo_processor))
     \<lparr>WorkerCount = 4, ConsumerPrefix = ''app'', ReadCount = 10, Block = 2000000000, ReadErrorBackoff = 0,
      FailureSimulation = \<lparr>fs_After = 1, fs_Count = 1\<rparr>\<rparr> None [True])"

definition demo_reclaimer :: "(redis_sim, sim, nat) outside Reclaimer" where
  "demo_reclaimer = projr (NewReclaimer (Some (pendingQueueOf demo_queue)) (Some (processorOf demo_processor))
     \<lparr>ConsumerName = ''app-reclaimer'', Interval = 5000000000, MinIdle = 30000000000, Count = 10\<rparr> None [True])"

lemma demo_wired: "wired demo_queue demo_processor demo_pool" "wired_reclaimer demo_queue demo_processor demo_reclaimer"
  by (simp_all add: wired_def wired_reclaimer_def demo_pool_def demo_reclaimer_def NewPool_def NewReclaimer_def)

definition demo_state :: "(redis_sim, sim, nat) outside process_state" where
  "demo_state = \<lparr>world = \<lparr>o_redis = demo_stream, o_database = demo_start, o_environment = 5\<rparr>,
     collector = newCollectorAt 0, successfulProcessed = 0, logged = []\<rparr>"

theorem consumers_stop_witness:
  "\<exists>st'. runWorker (runtimeOf countdown) demo_pool AppContext ''app-1'' demo_state = Some st' \<and>
     last (logged st') = (p_logger demo_pool, WorkerStopped ''app-1'')"
  using consumers_stop [OF countdown.mortal_context_axioms sim_cursor demo_session
      demo_wired [unfolded demo_queue_def demo_processor_def]]
  by blast

theorem consumers_take_steps_witness:
  "\<exists>st'. runWorker (runtimeOf countdown) demo_pool AppContext ''app-1'' demo_state = Some st' \<and>
     (step demo_queue demo_processor)\<^sup>*\<^sup>* (cluster_at demo_state ((\<lambda>_. Idle)(''app-1'' := Idle)))
       (cluster_at st' ((\<lambda>_. Idle)(''app-1'' := Idle)))"
proof -
  have "Process demo_processor ev d \<noteq> None" for ev d
    using pg_session.processor_returns [OF demo_session] by (simp add: demo_processor_def)
  from countdown.workerLoop_returns [OF demo_wired(1) this]
  obtain st' where "runWorker (runtimeOf countdown) demo_pool AppContext ''app-1'' demo_state = Some st'"
    by (fastforce simp: runWorker_def)
  with consumers_take_steps [OF demo_wired] show ?thesis by blast
qed

end
