(* ===== verification/Worker_Properties.thy ===== *)
theory Worker_Properties
  imports Worker_Steps
begin

text \<open>
  What a worker does with a batch: one verdict per message in order, in the log and in the
  counters; the window of the acknowledgement failure simulator on 64-bit counters; and what
  the constructors accept.
\<close>

section \<open>One verdict per message\<close>

text \<open>The four lines a message can end with.\<close>

definition verdict_for :: "string \<Rightarrow> StreamMessage \<Rightarrow> log_line \<Rightarrow> bool" where
  "verdict_for name m line \<longleftrightarrow>
     (let i = RedisID m; eid = EventID (Event m); oid = OrderID (Event m) in
      (\<exists>err. line = ProcessFailed name i eid oid err) \<or>
      (\<exists>cl. line = SimulatedFailure name i eid oid cl) \<or>
      (\<exists>cl err. line = AckFailed name i eid oid cl err) \<or>
      (\<exists>cl k. line = AckSuccess name i eid oid cl k))"

fun is_failure :: "log_line \<Rightarrow> bool" where
  "is_failure (ProcessFailed _ _ _ _ _) = True"
| "is_failure _ = False"

fun is_simulated :: "log_line \<Rightarrow> bool" where
  "is_simulated (SimulatedFailure _ _ _ _ _) = True"
| "is_simulated _ = False"

lemma process_tables_class:
  "res_Classification (snd (process_tables c ev payload t)) \<in> set outcome_classes"
  using classification_total [of "current_of (select_current_status (OrderID ev) t)" "Status ev"]
  by (auto simp: process_tables_def route_tables_def base_result_def outcome_classes_def Let_def
      split: prod.split)

lemma RecordResult_counters:
  assumes "res_Classification r \<in> set outcome_classes"
  shows "processed (RecordResult r c) = processed c + 1" and "failures (RecordResult r c) = failures c"
    and "simulatedFailures (RecordResult r c) = simulatedFailures c"
proof -
  have "total Processed (resultAdditions r) = 1" "total Failures (resultAdditions r) = 0"
      "total SimulatedFailures (resultAdditions r) = 0"
    using assms by (auto simp: resultAdditions_def outcome_classes_def Let_def)
  with counterOf_addAll [of Processed "resultAdditions r" c] counterOf_addAll [of Failures "resultAdditions r" c]
    counterOf_addAll [of SimulatedFailures "resultAdditions r" c]
  show "processed (RecordResult r c) = processed c + 1" "failures (RecordResult r c) = failures c"
    "simulatedFailures (RecordResult r c) = simulatedFailures c"
    by (simp_all add: RecordResult_def)
qed

text \<open>The counters after a verdict.\<close>

definition counted :: "log_line list \<Rightarrow> Collector \<Rightarrow> Collector \<Rightarrow> bool" where
  "counted lines c c' \<longleftrightarrow>
     processed c' = processed c + of_nat (length (filter (\<lambda>l. \<not> is_failure l) lines)) \<and>
     failures c' = failures c + of_nat (length (filter is_failure lines)) \<and>
     simulatedFailures c' = simulatedFailures c + of_nat (length (filter is_simulated lines))"

lemma counted_trans: "counted ls c c' \<Longrightarrow> counted ls' c' c'' \<Longrightarrow> counted (ls @ ls') c c''"
  by (simp add: counted_def)

lemma handleMessage_verdict:
  assumes "pg_session db codec view committed in_tx"
    and "wired q (NewProcessor (NewPostgresOrderRepository db)) p" and "p_metrics p"
    and "handleMessage p ctx name m st = Some st'"
  shows "\<exists>line. verdict_for name m line \<and> logged st' = logged st @ [(p_logger p, line)] \<and>
    counted [line] (collector st) (collector st')"
proof -
  obtain d r where proc: "Process (NewProcessor (NewPostgresOrderRepository db)) (Event m) (o_database (world st)) =
      Some (d, r)"
    using pg_session.processor_returns [OF assms(1)] by blast
  show ?thesis
  proof (cases r)
    case (Inl e)
    with proc assms(2-4) show ?thesis
      by (intro exI [of _ "snd (last (logged st'))"])
         (auto simp: handleMessage_def wiring verdict_for_def counted_def ifMetrics_def printf_def Let_def
            RecordFailure_def)
  next
    case (Inr res)
    obtain payload where "process_tables codec (Event m) payload (committed (o_database (world st))) = (committed d, res)"
      using pg_session.processor_ok [OF assms(1)] proc Inr by blast
    then have res: "res_Classification res \<in> set outcome_classes"
        "res_EventID res = EventID (Event m)" "res_OrderID res = OrderID (Event m)"
      using process_tables_class process_result_ids by (metis snd_conv)+
    show ?thesis
      using proc Inr assms(2-4) res RecordResult_counters [OF res(1)]
      by (intro exI [of _ "snd (last (logged st'))"])
         (auto simp: handleMessage_def wiring verdict_for_def counted_def ifMetrics_def printf_def
            RecordSimulatedFailure_def Let_def split: option.splits prod.splits if_splits)
  qed
qed

text \<open>
  C35: One verdict per message.  A worker with a collector works through its whole batch, whatever
  fails and even if shutdown has begun: it logs exactly one verdict for each message in the order
  of the batch, and adds to \<open>failures\<close>, \<open>simulated_failures\<close> and \<open>processed\<close> the number of
  verdicts of that kind.
\<close>

theorem one_verdict_per_message:
  assumes "pg_session db codec view committed in_tx"
    and "wired q (NewProcessor (NewPostgresOrderRepository db)) p" and "p_metrics p"
  shows "\<exists>st' lines. handleMessages p (WithoutCancel ctx) name ms st = Some st' \<and>
    list_all2 (verdict_for name) ms lines \<and> logged st' = logged st @ map (Pair (p_logger p)) lines \<and>
    counted lines (collector st) (collector st')"
proof (induction ms arbitrary: st)
  case Nil
  show ?case by (simp add: counted_def)
next
  case (Cons m ms)
  have "Process (NewProcessor (NewPostgresOrderRepository db)) ev d \<noteq> None" for ev d
    using pg_session.processor_returns [OF assms(1)] by simp
  from handleMessages_returns [OF assms(2) this, of "WithoutCancel ctx" name "[m]" st]
  obtain st1 where st1: "handleMessage p (WithoutCancel ctx) name m st = Some st1"
    by (auto simp: bind_eq_Some_conv)
  obtain line where line: "verdict_for name m line" "logged st1 = logged st @ [(p_logger p, line)]"
      "counted [line] (collector st) (collector st1)"
    using handleMessage_verdict [OF assms st1] by blast
  obtain st' lines where rest: "handleMessages p (WithoutCancel ctx) name ms st1 = Some st'"
      "list_all2 (verdict_for name) ms lines" "logged st' = logged st1 @ map (Pair (p_logger p)) lines"
      "counted lines (collector st1) (collector st')"
    using Cons.IH [of st1] by blast
  show ?case
    using st1 line rest counted_trans [OF line(3) rest(4)]
    by (intro exI [of _ st'] exI [of _ "line # lines"]) simp
qed

theorem one_verdict_per_message_witness:
  "\<exists>st' line. handleMessages demo_pool (WithoutCancel AppContext) ''app-1'' [demo_message] demo_state = Some st' \<and>
     verdict_for ''app-1'' demo_message line \<and> logged st' = [(p_logger demo_pool, line)]"
proof -
  have "p_metrics demo_pool" by (simp add: demo_pool_def NewPool_def)
  from one_verdict_per_message [OF demo_session demo_wired(1) [unfolded demo_processor_def] this,
      of AppContext "''app-1''" "[demo_message]" demo_state]
  show ?thesis by (auto simp: list_all2_Cons1 demo_state_def)
qed

section \<open>The simulated failures\<close>

text \<open>The decisions of a number of calls, from a value of the counter on.\<close>

fun skips :: "ackFailureSimulator \<Rightarrow> u64 \<Rightarrow> nat \<Rightarrow> bool list" where
  "skips s counter 0 = []"
| "skips s counter (Suc n) =
     (let (skip, counter') = shouldSkipAck s counter in skip # skips s counter' n)"

lemma shouldSkipAck_position:
  assumes "Suc k < 2 ^ 64"
  shows "shouldSkipAck s (of_nat k) =
    (unat (sim_after s) \<le> k \<and> k < unat (sim_after s) + unat (sim_count s), of_nat (Suc k))"
proof -
  have pos: "unat (of_nat (Suc k) :: u64) = Suc k"
    using assms by (simp add: unsigned_of_nat take_bit_nat_eq_self del: of_nat_Suc)
  have "of_nat k + 1 = (of_nat (Suc k) :: u64)" by simp
  moreover have "(of_nat (Suc k) :: u64) \<le> sim_after s \<longleftrightarrow> Suc k \<le> unat (sim_after s)"
    using pos by (simp add: word_le_nat_alt del: of_nat_Suc)
  moreover have "of_nat (Suc k) - sim_after s \<le> sim_count s \<longleftrightarrow> Suc k - unat (sim_after s) \<le> unat (sim_count s)"
    if "\<not> Suc k \<le> unat (sim_after s)"
    using that pos by (simp add: word_le_nat_alt unat_sub del: of_nat_Suc)
  ultimately show ?thesis by (auto simp: shouldSkipAck_def Let_def simp del: of_nat_Suc)
qed

text \<open>
  C36: The simulated failures hit exactly the window.  Of the first \<open>n\<close> successfully processed
  messages, for any \<open>n\<close> below 2^64, the simulator skips the acknowledgement of those after the
  first \<open>After\<close> and up to \<open>After + Count\<close>, even if that sum exceeds the range of \<open>uint64\<close>.
\<close>

theorem skipped_acks_window:
  assumes "n < 2 ^ 64"
  shows "skips s 0 n = map (\<lambda>i. unat (sim_after s) \<le> i \<and> i < unat (sim_after s) + unat (sim_count s)) [0..<n]"
proof -
  have "skips s (of_nat k) n =
      map (\<lambda>i. unat (sim_after s) \<le> i \<and> i < unat (sim_after s) + unat (sim_count s)) [k..<k + n]"
    if "k + n < 2 ^ 64" for k
    using that
  proof (induction n arbitrary: k)
    case (Suc n)
    then show ?case
      using shouldSkipAck_position [of k s] Suc.IH [of "Suc k"] by (simp add: upt_rec del: of_nat_Suc)
  qed simp
  from this [of 0] assms show ?thesis by simp
qed

theorem skipped_acks_window_witness:
  "skips \<lparr>sim_after = 2, sim_count = 1\<rparr> 0 5 = [False, False, True, False, False]"
  using skipped_acks_window [of 5 "\<lparr>sim_after = 2, sim_count = 1\<rparr>"] by (simp add: upt_rec)

end
