(* ===== verification/Recovery.thy ===== *)
theory Recovery
  imports Worker_Steps
begin

text \<open>
  Recovery after crashes: on a server and a database that are up, one pass of the reclaimer
  over entries that have been idle long enough processes and acknowledges all of them.
\<close>

section \<open>A server that is up\<close>

text \<open>
  \<open>stale\<close>: every pending entry has been idle for the minimum time.  Then a claim from the
  beginning with a sufficient count returns all of them, and the scan is complete.
\<close>

locale redis_available = redis_cursor c stream grp_name group ahead
  for c :: "'r redis_client" and stream grp_name group ahead +
  fixes up :: "'r \<Rightarrow> bool" and stale :: "'r \<Rightarrow> bool"
  assumes claim_all: "up s \<Longrightarrow> stale s \<Longrightarrow> group_ok (group s) \<Longrightarrow> 0 < n \<Longrightarrow>
      int (card (dom (pel (group s)))) \<le> n \<Longrightarrow>
      \<exists>s' ms. XAutoClaim c stream grp_name consumer minIdle ''0-0'' n s = (s', Inr (ms, ''0-0'')) \<and>
        xm_ID ` set ms = dom (pel (group s)) \<and> up s'"
    and ack_up: "up s \<Longrightarrow> \<exists>s'. XAck c stream grp_name i s = (s', None) \<and> up s'"

lemma rs_ahead_all:
  assumes "group_ok g"
  shows "fst ` set (rs_ahead ''0-0'' g) = dom (pel g)"
    and "length (rs_ahead ''0-0'' g) = card (dom (pel g))"
proof -
  have "dom (pel g) \<subseteq> fst ` set (entries g)"
    using assms by (force simp: group_ok_def delivered_ids_def dest: in_set_takeD)
  then show ids: "fst ` set (rs_ahead ''0-0'' g) = dom (pel g)"
    by (force simp: rs_ahead_def)
  have "distinct (map fst (rs_ahead ''0-0'' g))"
    using assms by (simp add: rs_ahead_def group_ok_def distinct_map_filter)
  with ids show "length (rs_ahead ''0-0'' g) = card (dom (pel g))"
    by (metis distinct_card length_map set_map)
qed

interpretation sim_redis_up: redis_available redis_server stream grp_name rs_group
  "\<lambda>start s. length (rs_ahead start (rs_group s))" "\<lambda>s. rs_faults s = []" "\<lambda>s. True"
proof unfold_locales
  fix s :: redis_sim and n consumer minIdle
  assume "rs_faults s = []" "group_ok (rs_group s)" "0 < n" "int (card (dom (pel (rs_group s)))) \<le> n"
  then show "\<exists>s' ms. XAutoClaim redis_server stream grp_name consumer minIdle ''0-0'' n s = (s', Inr (ms, ''0-0'')) \<and>
      xm_ID ` set ms = dom (pel (rs_group s)) \<and> rs_faults s' = []"
    using rs_ahead_all [of "rs_group s"]
    by (auto simp: redis_server_def Let_def rs_run_def rs_set_def rs_tick_def xmessage_def image_image)
next
  fix s :: redis_sim and i
  assume "rs_faults s = []"
  then show "\<exists>s'. XAck redis_server stream grp_name i s = (s', None) \<and> rs_faults s' = []"
    by (auto simp: redis_server_def rs_run_def rs_set_def rs_tick_def)
qed

section \<open>A pass of the reclaimer\<close>

definition processable :: "pg_codec \<Rightarrow> OrderEvent \<Rightarrow> bool" where
  "processable c ev \<longleftrightarrow> (\<exists>payload. validateEvent ev = Inr payload \<and> event_storable c ev payload)"

locale recovery = redis_available c stream grp_name group ahead up stale +
    pg_available db codec view committed in_tx available
  for c :: "'r redis_client" and stream grp_name and group :: "'r \<Rightarrow> group_state" and ahead up stale
    and db :: "'d dbTransaction" and codec and view and committed :: "'d \<Rightarrow> tables" and in_tx and available
begin

abbreviation processor :: "'d Processor" where
  "processor \<equiv> NewProcessor (NewPostgresOrderRepository db)"

text \<open>Both servers are up and the tables are in order.\<close>

definition running :: "('r, 'd, 'e) outside \<Rightarrow> bool" where
  "running w \<longleftrightarrow> up (o_redis w) \<and> available (o_database w) \<and>
     consistent (committed (o_database w)) \<and> storable codec (committed (o_database w))"

lemma reclaimMessage_succeeds:
  assumes "wired_reclaimer queue processor r" and "running (world st)"
    and "processable codec (Event m)" and "RedisID m \<noteq> ''''"
  obtains st' where "reclaimMessage r ctx m st = Some st'" and "running (world st')"
    and "group (o_redis (world st')) = acknowledge (RedisID m) (group (o_redis (world st)))"
    and "svc.settled (o_database (world st')) = insert (EventID (Event m)) (svc.settled (o_database (world st)))"
proof -
  let ?d = "o_database (world st)"
  obtain payload where payload: "validateEvent (Event m) = Inr payload" "event_storable codec (Event m) payload"
    using assms(3) by (auto simp: processable_def)
  let ?pt = "process_tables codec (Event m) payload (committed ?d)"
  obtain d' where d': "ProcessEventTx db (Event m) ?d = Some (d', Inr (snd ?pt))" "available d'"
      "committed d' = fst ?pt"
    using ProcessEventTx_succeeds [OF _ _ _ payload] assms(2) by (auto simp: running_def)
  then have proc: "Process processor (Event m) ?d = Some (d', Inr (snd ?pt))"
    by (simp add: Process_def NewProcessor_def NewPostgresOrderRepository_def)
  obtain s' where s': "XAck c stream grp_name (RedisID m) (o_redis (world st)) = (s', None)" "up s'"
    using ack_up assms(2) by (auto simp: running_def)
  have "Ack queue (RedisID m) (o_redis (world st)) = (s', None)"
    using s'(1) assms(4) by (simp add: Ack_def)
  then have "reclaimMessage r ctx m st \<noteq> None \<and>
      (\<forall>st'. reclaimMessage r ctx m st = Some st' \<longrightarrow> o_redis (world st') = s' \<and> o_database (world st') = d')"
    using proc assms(1) by (auto simp: reclaimMessage_def wiring Let_def)
  then obtain st' where st': "reclaimMessage r ctx m st = Some st'" "o_redis (world st') = s'"
      "o_database (world st') = d'"
    by blast
  moreover have "running (world st')"
    using st' s'(2) d'(2,3) assms(2) payload
    by (simp add: running_def consistent_process_tables validateEvent_known storable_process_tables)
  moreover have "group s' = acknowledge (RedisID m) (group (o_redis (world st)))" by (rule ack_ok [OF s'(1)])
  ultimately show thesis using that d'(3) by (simp add: dom_processed_process_tables)
qed

lemma reclaimMessages_succeed:
  assumes "wired_reclaimer queue processor r" and "running (world st)"
    and "\<forall>m \<in> set ms. processable codec (Event m) \<and> RedisID m \<noteq> ''''"
  shows "\<exists>st'. reclaimMessages r ctx ms st = Some st' \<and> running (world st') \<and>
    pel (group (o_redis (world st'))) = pel (group (o_redis (world st))) |` (- RedisID ` set ms) \<and>
    svc.settled (o_database (world st')) = (EventID \<circ> Event) ` set ms \<union> svc.settled (o_database (world st))"
  using assms(2,3)
proof (induction ms arbitrary: st)
  case (Cons m ms)
  obtain st1 where st1: "reclaimMessage r ctx m st = Some st1" "running (world st1)"
      "group (o_redis (world st1)) = acknowledge (RedisID m) (group (o_redis (world st)))"
      "svc.settled (o_database (world st1)) = insert (EventID (Event m)) (svc.settled (o_database (world st)))"
    using reclaimMessage_succeeds [OF assms(1) Cons.prems(1)] Cons.prems(2) by (metis list.set_intros(1))
  have "pel (group (o_redis (world st1))) |` (- RedisID ` set ms) =
      pel (group (o_redis (world st))) |` (- RedisID ` set (m # ms))"
    by (auto simp: st1(3) acknowledge_def restrict_map_def)
  with Cons.IH [OF st1(2)] Cons.prems(2) st1(1,4) show ?case by auto
qed (simp add: restrict_map_def)

lemma claim_stale:
  assumes "up s" and "stale s" and "group_ok (group s)" and "int (card (dom (pel (group s)))) \<le> n"
    and "0 < n" and "0 < minIdle" and "name \<noteq> ''''"
    and "\<forall>e \<in> set (entries (group s)). fst e \<in> dom (pel (group s)) \<longrightarrow> (\<exists>m. decodes e m)"
  shows "\<exists>s' msgs. ClaimPending queue name minIdle n s = Some (s', Inr msgs) \<and> up s' \<and>
    RedisID ` set msgs = dom (pel (group s)) \<and> reowned (group s) (group s') \<and> claimed_from (group s) msgs"
proof -
  obtain s' ms where claim: "XAutoClaim c stream grp_name name minIdle ''0-0'' n s = (s', Inr (ms, ''0-0''))"
      "xm_ID ` set ms = dom (pel (group s))" "up s'"
    using claim_all [OF assms(1,2,3,5,4)] by blast
  note ok = claim_ok [OF claim(1) assms(5)]
  have "\<exists>msg. parseStreamMessage m = Inr msg" if "m \<in> set ms" for m
    using ok assms(8) that by (cases m) (fastforce simp: decodes_def xmessage_def)
  then have "list_all2 (\<lambda>m msg. parseStreamMessage m = Inr msg) ms (map (\<lambda>m. projr (parseStreamMessage m)) ms)"
    by (fastforce simp: list_all2_map2 intro: list.rel_refl_strong)
  then obtain msgs where msgs: "list_all2 (\<lambda>m msg. parseStreamMessage m = Inr msg) ms msgs"
    by blast
  then have parse: "parseStreamMessages ms = Inr msgs" by (simp add: parseStreamMessages_iff)
  have "map RedisID msgs = map xm_ID ms"
    using msgs by (induction rule: list_all2_induct)
      (auto simp: parseStreamMessage_def Let_def bindE_Inr_iff)
  then have ids: "RedisID ` set msgs = dom (pel (group s))"
    using claim(2) by (metis set_map)
  have "ClaimPending queue name minIdle n s = Some (s', Inr msgs)"
    using claim(1) parse assms(5,6,7)
    by (simp add: ClaimPending_def claimLoop.simps [of queue name minIdle n "[]"])
  with ids claim(3) claim_step [OF claim(1) assms(5) parse] show ?thesis by blast
qed

lemma reclaim_succeeds:
  assumes "wired_reclaimer queue processor r" and "running (world st)" and "stale (o_redis (world st))"
    and "group_ok (group (o_redis (world st)))"
    and "int (card (dom (pel (group (o_redis (world st)))))) \<le> Count (r_config r)"
    and "0 < Count (r_config r)" and "0 < MinIdle (r_config r)" and "ConsumerName (r_config r) \<noteq> ''''"
    and "'''' \<notin> dom (pel (group (o_redis (world st))))"
    and "\<forall>e \<in> set (entries (group (o_redis (world st)))). fst e \<in> dom (pel (group (o_redis (world st)))) \<longrightarrow>
      (\<exists>m. decodes e m \<and> processable codec (Event m))"
  shows "\<exists>st'. reclaim rt r ctx st = Some st' \<and> pel (group (o_redis (world st'))) = Map.empty \<and>
    (\<forall>e \<in> set (entries (group (o_redis (world st)))). fst e \<in> dom (pel (group (o_redis (world st)))) \<longrightarrow>
      (\<exists>m. decodes e m \<and> EventID (Event m) \<in> svc.settled (o_database (world st'))))"
proof -
  let ?s = "o_redis (world st)" and ?g = "group (o_redis (world st))"
  obtain s1 msgs where claim: "ClaimPending queue (ConsumerName (r_config r)) (MinIdle (r_config r))
        (Count (r_config r)) ?s = Some (s1, Inr msgs)" "up s1"
      "RedisID ` set msgs = dom (pel ?g)" "reowned ?g (group s1)" "claimed_from ?g msgs"
    using claim_stale [OF _ assms(3-8)] assms(2,10) by (meson running_def)
  have decoded: "\<exists>e \<in> set (entries ?g). decodes e msg \<and> fst e = RedisID msg" if "msg \<in> set msgs" for msg
    using claim(5) that decodes_id unfolding claimed_from_def by metis
  have msgs_ok: "\<forall>m \<in> set msgs. processable codec (Event m) \<and> RedisID m \<noteq> ''''"
  proof
    fix m
    assume m: "m \<in> set msgs"
    then have "RedisID m \<in> dom (pel ?g)" using claim(3) by blast
    with decoded [OF m] assms(9,10) show "processable codec (Event m) \<and> RedisID m \<noteq> ''''"
      by (metis decodes_def old.sum.inject(2))
  qed
  let ?st1 = "st\<lparr>world := (world st)\<lparr>o_redis := s1\<rparr>\<rparr>"
  have "running (world ?st1)" using assms(2) claim(2) by (simp add: running_def)
  then obtain st' where st': "reclaimMessages r (WithoutCancel ctx) msgs ?st1 = Some st'"
      "pel (group (o_redis (world st'))) = pel (group s1) |` (- RedisID ` set msgs)"
      "svc.settled (o_database (world st')) = (EventID \<circ> Event) ` set msgs \<union> svc.settled (o_database (world st))"
    using reclaimMessages_succeed [OF assms(1) _ msgs_ok, of ?st1 "WithoutCancel ctx"] by auto
  have "reclaim rt r ctx st = Some st'"
    using st'(1) claim(1) assms(1) by (simp add: reclaim_def wiring)
  moreover have "pel (group (o_redis (world st'))) = Map.empty"
    unfolding st'(2) claim(3) reowned_sel(3) [OF claim(4), symmetric] by (auto simp: restrict_map_def)
  moreover have "\<exists>m. decodes e m \<and> EventID (Event m) \<in> svc.settled (o_database (world st'))"
    if e: "e \<in> set (entries ?g)" "fst e \<in> dom (pel ?g)" for e
  proof -
    from e(2) obtain msg where msg: "msg \<in> set msgs" "RedisID msg = fst e" by (metis claim(3) imageE)
    obtain e' where e': "e' \<in> set (entries ?g)" "decodes e' msg" "fst e' = fst e"
      using decoded [OF msg(1)] msg(2) by metis
    have "e' = e"
      using e(1) e'(1,3) assms(4) unfolding group_ok_def by (metis eq_key_imp_eq_value prod.collapse)
    with e'(2) msg(1) st'(3) show ?thesis by auto
  qed
  ultimately show ?thesis by blast
qed

end

interpretation sim_recovery: recovery redis_server stream grp_name rs_group
  "\<lambda>start s. length (rs_ahead start (rs_group s))" "\<lambda>s. rs_faults s = []" "\<lambda>s. True"
  "pgsim sim_codec" sim_codec sim_view sim_committed sim_in_tx sim_available
  by unfold_locales


lemma demo_crashed:
  obtains s vals where "eventFields demo_sale = Inr vals"
    and "ReadGroup demo_queue ''app-1'' 10 0 demo_stream = (s, Inr [demo_message])"
    and "rs_group s = \<lparr>entries = [(''1'', vals)], delivered = 1, pel = [''1'' \<mapsto> ''app-1'']\<rparr>"
    and "rs_faults s = []"
proof -
  obtain vals where vals: "eventFields demo_sale = Inr vals"
      "rs_group demo_stream = \<lparr>entries = [(''1'', vals)], delivered = 0, pel = Map.empty\<rparr>"
      "rs_faults demo_stream = []"
    by (rule demo_stream_entries)
  obtain s where s: "ReadGroup demo_queue ''app-1'' 10 0 demo_stream = (s, Inr [demo_message])"
    by (rule demo_read)
  then have "s = rs_set demo_stream (deliver ''app-1'' 10 (rs_group demo_stream))"
    using vals(2,3) by (simp add: ReadGroup_def demo_queue_def NewRedisStreamQueue_def redis_server_def
        rs_run_def next_entries_def Let_def)
  then have "rs_group s = \<lparr>entries = [(''1'', vals)], delivered = 1, pel = [''1'' \<mapsto> ''app-1'']\<rparr>" "rs_faults s = []"
    using vals(2,3) by (auto simp: rs_set_def rs_tick_def deliver_def next_entries_def assign_def)
  with that vals(1) s show thesis by blast
qed


end
