(* ===== verification/Go_Number.thy ===== *)
theory Go_Number
  imports Go_Time Complex_Main
begin

text \<open>
  What the commands use of Go's numbers: 64-bit \<open>int\<close> arithmetic with wrap-around, \<open>float64\<close>
  as IEEE 754 double precision with rounding to nearest, ties to even, the conversions between
  them, and \<open>strconv.Atoi\<close> and \<open>strconv.ParseUint\<close> in base 10.  The sign of a zero is left out:
  no operation used here tells the two zeros apart.
\<close>

section \<open>Integers\<close>

definition wrap64 :: "int \<Rightarrow> int" where
  "wrap64 x = (x + 2 ^ 63) mod 2 ^ 64 - 2 ^ 63"

definition int64 :: "int \<Rightarrow> bool" where
  "int64 x \<longleftrightarrow> - (2 ^ 63) \<le> x \<and> x < 2 ^ 63"

lemma wrap64_id [simp]: "int64 x \<Longrightarrow> wrap64 x = x"
  by (simp add: wrap64_def int64_def)

lemma wrap64_range: "int64 (wrap64 x)"
  using pos_mod_bound [of "2 ^ 64" "x + 2 ^ 63"] pos_mod_sign [of "2 ^ 64" "x + 2 ^ 63"]
  unfolding wrap64_def int64_def by simp

text \<open>Integer division truncates towards zero.\<close>

definition quot :: "int \<Rightarrow> int \<Rightarrow> int" where
  "quot a b = sgn a * sgn b * (\<bar>a\<bar> div \<bar>b\<bar>)"

lemma quot_nonneg [simp]: "0 \<le> a \<Longrightarrow> 0 < b \<Longrightarrow> quot a b = a div b"
  by (cases "a = 0") (simp_all add: quot_def)

section \<open>Floating point\<close>

datatype float64 = Finite rat | Inf bool | NaN

text \<open>The nearest integer, ties to even.\<close>

definition round_even :: "rat \<Rightarrow> int" where
  "round_even x =
     (let f = \<lfloor>x\<rfloor>; d = x - of_int f in
      if d < 1 / 2 then f else if d > 1 / 2 then f + 1 else if even f then f else f + 1)"

text \<open>
  The exponent of the last place of a number: 53 significant bits, and never below that of the
  subnormal numbers.  The recursion halves or doubles until the number is in the range of the
  significands.
\<close>

definition two_power :: "int \<Rightarrow> rat" where
  "two_power e = (if 0 \<le> e then 2 ^ nat e else 1 / 2 ^ nat (- e))"

fun last_place_up :: "nat \<Rightarrow> int \<Rightarrow> rat \<Rightarrow> int" where
  "last_place_up 0 e x = e"
| "last_place_up (Suc k) e x = (if x < 2 ^ 53 * two_power e then e else last_place_up k (e + 1) x)"

text \<open>Searching upwards from the subnormal exponent; 2098 steps reach the largest finite number.\<close>

definition last_place :: "rat \<Rightarrow> int" where
  "last_place x = last_place_up 2098 (- 1074) \<bar>x\<bar>"

definition round64 :: "rat \<Rightarrow> float64" where
  "round64 x =
     (let e = last_place x; y = of_int (round_even (x / two_power e)) * two_power e in
      if \<bar>y\<bar> \<ge> 2 ^ 1024 then Inf (x < 0) else Finite y)"

definition floatOfInt :: "int \<Rightarrow> float64" where
  "floatOfInt n = round64 (of_int n)"

fun float_sign :: "float64 \<Rightarrow> bool" where
  "float_sign (Finite x) = (x < 0)"
| "float_sign (Inf neg) = neg"
| "float_sign NaN = False"

fun float_mult :: "float64 \<Rightarrow> float64 \<Rightarrow> float64" where
  "float_mult NaN _ = NaN"
| "float_mult _ NaN = NaN"
| "float_mult (Finite x) (Finite y) = round64 (x * y)"
| "float_mult (Inf n) (Finite y) = (if y = 0 then NaN else Inf (n \<noteq> (y < 0)))"
| "float_mult (Finite x) (Inf n) = (if x = 0 then NaN else Inf (n \<noteq> (x < 0)))"
| "float_mult (Inf n) (Inf m) = Inf (n \<noteq> m)"

fun float_add :: "float64 \<Rightarrow> float64 \<Rightarrow> float64" where
  "float_add NaN _ = NaN"
| "float_add _ NaN = NaN"
| "float_add (Finite x) (Finite y) = round64 (x + y)"
| "float_add (Inf n) (Finite y) = Inf n"
| "float_add (Finite x) (Inf n) = Inf n"
| "float_add (Inf n) (Inf m) = (if n = m then Inf n else NaN)"

text \<open>The divisors used here are positive.\<close>

fun float_div :: "float64 \<Rightarrow> float64 \<Rightarrow> float64" where
  "float_div NaN _ = NaN"
| "float_div _ NaN = NaN"
| "float_div (Finite x) (Finite y) =
     (if y \<noteq> 0 then round64 (x / y) else if x = 0 then NaN else Inf (x < 0))"
| "float_div (Inf n) (Finite y) = Inf (n \<noteq> (y < 0))"
| "float_div (Finite x) (Inf n) = Finite 0"
| "float_div (Inf n) (Inf m) = NaN"

text \<open>\<open>Duration.Seconds()\<close>\<close>

definition durationSeconds :: "int \<Rightarrow> float64" where
  "durationSeconds d =
     (let sec = quot d second_ns; nsec = d - sec * second_ns in
      float_add (floatOfInt sec) (float_div (floatOfInt nsec) (Finite 1000000000)))"

definition isNaN :: "float64 \<Rightarrow> bool" where
  "isNaN x \<longleftrightarrow> x = NaN"

definition isInf :: "float64 \<Rightarrow> bool" where
  "isInf x \<longleftrightarrow> (case x of Inf _ \<Rightarrow> True | _ \<Rightarrow> False)"

fun float_less :: "float64 \<Rightarrow> float64 \<Rightarrow> bool" where
  "float_less (Finite x) (Finite y) \<longleftrightarrow> x < y"
| "float_less (Inf n) (Finite y) \<longleftrightarrow> n"
| "float_less (Finite x) (Inf n) \<longleftrightarrow> \<not> n"
| "float_less (Inf n) (Inf m) \<longleftrightarrow> n \<and> \<not> m"
| "float_less _ _ \<longleftrightarrow> False"

fun floor64 :: "float64 \<Rightarrow> float64" where
  "floor64 (Finite x) = Finite (of_int \<lfloor>x\<rfloor>)"
| "floor64 x = x"

text \<open>
  \<open>int(f)\<close> truncates; for a value out of range the language leaves the result to the
  implementation, and this is the one of the amd64 instruction.
\<close>

fun intOfFloat :: "float64 \<Rightarrow> int" where
  "intOfFloat (Finite x) =
     (let n = (if x < 0 then - \<lfloor>- x\<rfloor> else \<lfloor>x\<rfloor>) in if int64 n then n else - (2 ^ 63))"
| "intOfFloat _ = - (2 ^ 63)"

section \<open>Rounding a product of a count and a ratio\<close>

lemma round_even_le: "x \<le> of_int n \<Longrightarrow> round_even x \<le> n"
proof -
  assume x: "x \<le> of_int n"
  then have f: "\<lfloor>x\<rfloor> \<le> n" by linarith
  show ?thesis
  proof (cases "\<lfloor>x\<rfloor> = n")
    case True
    with x have "x - of_int \<lfloor>x\<rfloor> \<le> 0" by simp
    then show ?thesis using True by (simp add: round_even_def Let_def)
  next
    case False
    with f show ?thesis by (simp add: round_even_def Let_def)
  qed
qed

lemma round_even_ge: "of_int n \<le> x \<Longrightarrow> n \<le> round_even x"
proof -
  assume "of_int n \<le> x"
  then have "n \<le> \<lfloor>x\<rfloor>" by (simp add: le_floor_iff)
  then show ?thesis by (simp add: round_even_def Let_def)
qed

lemma two_power_pos [simp]: "0 < two_power e"
  by (simp add: two_power_def)

text \<open>The exponent of the last place is the least that fits.\<close>

lemma last_place_up_bound:
  assumes "x < 2 ^ 53 * two_power e1" and "e \<le> e1"
  shows "last_place_up k e x \<le> e1"
  using assms(2)
proof (induction k arbitrary: e)
  case (Suc k)
  with assms(1) show ?case by (cases "e = e1") simp_all
qed simp

lemma integer_multiple:
  assumes "e \<le> 0"
  shows "(of_int n :: rat) / two_power e = of_int (n * 2 ^ nat (- e))"
  using assms by (cases "e = 0") (simp_all add: two_power_def)

lemma round64_bounds:
  assumes "0 \<le> m" and "of_int m \<le> x" and "x \<le> of_int n" and "n < 2 ^ 53"
  shows "\<exists>y. round64 x = Finite y \<and> of_int m \<le> y \<and> y \<le> of_int n"
proof -
  let ?e = "last_place x"
  have nonneg: "0 \<le> (of_int m :: rat)" using assms(1) by simp
  have n53: "of_int n < (2 ^ 53 :: rat)"
    using assms(4) by (metis of_int_less_iff of_int_numeral of_int_power)
  with nonneg assms(2,3) have x: "\<bar>x\<bar> < 2 ^ 53" by simp
  then have e: "?e \<le> 0" unfolding last_place_def by (intro last_place_up_bound) (auto simp: two_power_def)
  define y where "y = of_int (round_even (x / two_power ?e)) * two_power ?e"
  have "x / two_power ?e \<le> of_int (n * 2 ^ nat (- ?e))"
    unfolding integer_multiple [OF e, symmetric] using assms(3) by (intro divide_right_mono) (auto intro: less_imp_le)
  then have "round_even (x / two_power ?e) \<le> n * 2 ^ nat (- ?e)" by (rule round_even_le)
  then have "of_int (round_even (x / two_power ?e)) \<le> of_int n / two_power ?e"
    unfolding integer_multiple [OF e] by (simp only: of_int_le_iff)
  then have up: "y \<le> of_int n" by (simp add: y_def pos_le_divide_eq)
  have "of_int (m * 2 ^ nat (- ?e)) \<le> x / two_power ?e"
    unfolding integer_multiple [OF e, symmetric] using assms(2) by (intro divide_right_mono) (auto intro: less_imp_le)
  then have "m * 2 ^ nat (- ?e) \<le> round_even (x / two_power ?e)" by (rule round_even_ge)
  then have "of_int m / two_power ?e \<le> of_int (round_even (x / two_power ?e))"
    unfolding integer_multiple [OF e] by (simp only: of_int_le_iff)
  then have low: "of_int m \<le> y" by (simp add: y_def pos_divide_le_eq)
  have "y < 2 ^ 53" using up n53 by simp
  also have "(2 ^ 53 :: rat) \<le> 2 ^ 1024" by (rule power_increasing) simp_all
  finally have "\<not> \<bar>y\<bar> \<ge> 2 ^ 1024" using low nonneg by simp
  then have "round64 x = Finite y" by (simp add: round64_def Let_def y_def [symmetric])
  with up low show ?thesis by blast
qed

lemma floatOfInt_exact:
  assumes "0 \<le> n" and "n < 2 ^ 53"
  shows "floatOfInt n = Finite (of_int n)"
  using round64_bounds [of n "of_int n" n] assms by (auto simp: floatOfInt_def)

text \<open>A number with at most 53 significant bits in the range of the exponents is exact.\<close>

lemma two_power_step: "two_power (e + 1) = 2 * two_power e"
proof (cases "0 \<le> e")
  case True
  then have "nat (e + 1) = Suc (nat e)" by simp
  then show ?thesis using True by (simp add: two_power_def)
next
  case False
  then have "nat (- e) = Suc (nat (- (e + 1)))" by simp
  then show ?thesis using False by (cases "e = -1") (simp_all add: two_power_def)
qed

lemma two_power_mult: "two_power (e + int k) = 2 ^ k * two_power e"
proof (induction k)
  case (Suc k)
  then show ?case using two_power_step [of "e + int k"] by (simp add: add.assoc add.commute [of 1])
qed simp

lemma round_even_of_int [simp]: "round_even (of_int n) = n"
  by (simp add: round_even_def)

lemma round64_exact:
  assumes "x = of_int m * two_power e" and "\<bar>m\<bar> < 2 ^ 53" and "- 1074 \<le> e" and "\<bar>x\<bar> < 2 ^ 1024"
  shows "round64 x = Finite x"
proof -
  let ?e = "last_place x"
  have "\<bar>of_int m\<bar> < (2 ^ 53 :: rat)"
    using assms(2) by (metis of_int_abs of_int_less_iff of_int_numeral of_int_power)
  then have "\<bar>x\<bar> < 2 ^ 53 * two_power e" by (simp add: assms(1) abs_mult abs_of_pos)
  then have "?e \<le> e" unfolding last_place_def by (intro last_place_up_bound) (use assms(3) in auto)
  then obtain k where e: "e = ?e + int k" using zle_iff_zadd by auto
  have pos: "two_power ?e \<noteq> 0" using two_power_pos [of ?e] by linarith
  have "x / two_power ?e = of_int m * two_power e / two_power ?e" by (simp add: assms(1))
  also have "two_power e = 2 ^ k * two_power ?e" by (subst e) (rule two_power_mult)
  finally have q: "x / two_power ?e = of_int (m * 2 ^ k)" using pos by simp
  then have "of_int (m * 2 ^ k) * two_power ?e = x" using pos by (metis nonzero_eq_divide_eq)
  moreover have "round_even (x / two_power ?e) = m * 2 ^ k" unfolding q by (rule round_even_of_int)
  ultimately show ?thesis using assms(4) by (simp add: round64_def Let_def not_le)
qed

section \<open>Parsing\<close>

text \<open>\<open>strconv.ParseUint(s, 10, 64)\<close> and \<open>strconv.Atoi(s)\<close>; \<open>None\<close> is a syntax or range error.\<close>

definition ParseUint :: "string \<Rightarrow> u64 option" where
  "ParseUint s =
     (if s = '''' \<or> \<not> list_all is_digit s then None
      else if digits_val s < 2 ^ 64 then Some (word_of_int (digits_val s)) else None)"

definition Atoi :: "string \<Rightarrow> int option" where
  "Atoi s =
     (let (neg, ds) = (case s of
            ch # rest \<Rightarrow> if ch = CHR ''-'' then (True, rest) else if ch = CHR ''+'' then (False, rest) else (False, s)
          | [] \<Rightarrow> (False, []))
      in if ds = '''' \<or> \<not> list_all is_digit ds then None
         else let n = (if neg then - digits_val ds else digits_val ds)
              in if int64 n then Some n else None)"

lemma decimal_digits:
  "list_all is_digit (decimal n)" "decimal n \<noteq> []" "digits_val (decimal n) = int n"
proof -
  have "list_all is_digit (decimal n) \<and> decimal n \<noteq> [] \<and> digits_val (decimal n) = int n"
  proof (induction n rule: decimal.induct)
    case (1 n)
    show ?case
    proof (cases "n < 10")
      case True
      then show ?thesis by (simp add: decimal.simps [of n] digits_val_def)
    next
      case False
      with 1 show ?thesis by (simp add: decimal.simps [of n]) (simp add: zdiv_int zmod_int)
    qed
  qed
  then show "list_all is_digit (decimal n)" "decimal n \<noteq> []" "digits_val (decimal n) = int n" by simp_all
qed

text \<open>No leading zeros.\<close>

lemma decimal_Cons:
  obtains ch ds where "decimal n = ch # ds" and "is_digit ch" and "list_all is_digit ds"
    and "ch = CHR ''0'' \<longrightarrow> ds = []"
proof -
  have "\<exists>ch ds. decimal n = ch # ds \<and> is_digit ch \<and> list_all is_digit ds \<and> (ch = CHR ''0'' \<longrightarrow> n = 0 \<and> ds = [])"
  proof (induction n rule: decimal.induct)
    case (1 n)
    show ?case
    proof (cases "n < 10")
      case True
      then show ?thesis by (simp add: decimal.simps [of n])
    next
      case False
      with 1 obtain ch ds where "decimal (n div 10) = ch # ds" "is_digit ch" "list_all is_digit ds"
          "ch = CHR ''0'' \<longrightarrow> n div 10 = 0 \<and> ds = []"
        by blast
      with False show ?thesis by (auto simp: decimal.simps [of n])
    qed
  qed
  with that show thesis by blast
qed

end
