(* ===== verification/Commands.thy ===== *)
theory Commands
  imports Worker_Steps Go_Number
begin

text \<open>
  The service's command, \<open>cmd/api/main.go\<close>: reading the environment, opening the database pool
  (\<open>internal/db/postgres.go\<close>, over an abstract pgx driver), and wiring and starting the consumers.
  The environment is a function from names to values, empty for an unset variable as \<open>os.Getenv\<close>
  has it.  The signal handling and the HTTP server are not modelled, and neither is closing the
  Redis client.
\<close>

section \<open>The environment\<close>

type_synonym environment = "string \<Rightarrow> string"

datatype env_error = ErrRequired string | ErrPositiveInteger string | ErrNonNegativeInteger string

definition requiredEnv :: "environment \<Rightarrow> string \<Rightarrow> env_error + string" where
  "requiredEnv getenv name =
     (let value = getenv name in if value = '''' then Inl (ErrRequired name) else Inr value)"

definition envOrDefault :: "environment \<Rightarrow> string \<Rightarrow> string \<Rightarrow> string" where
  "envOrDefault getenv name fallback =
     (let value = getenv name in if value = '''' then fallback else value)"

definition positiveIntEnv :: "environment \<Rightarrow> string \<Rightarrow> int \<Rightarrow> env_error + int" where
  "positiveIntEnv getenv name fallback =
     (let value = getenv name in
      if value = '''' then Inr fallback
      else (case Atoi value of
              None \<Rightarrow> Inl (ErrPositiveInteger name)
            | Some parsed \<Rightarrow> if parsed \<le> 0 then Inl (ErrPositiveInteger name) else Inr parsed))"

definition nonNegativeUintEnv :: "environment \<Rightarrow> string \<Rightarrow> u64 \<Rightarrow> env_error + u64" where
  "nonNegativeUintEnv getenv name fallback =
     (let value = getenv name in
      if value = '''' then Inr fallback
      else (case ParseUint value of
              None \<Rightarrow> Inl (ErrNonNegativeInteger name)
            | Some parsed \<Rightarrow> Inr parsed))"

section \<open>Starting the service\<close>

text \<open>The local variables of \<open>run\<close> after the environment has been read.\<close>

record settings =
  postgresDSN :: string
  redisAddr :: string
  workerCount :: int
  readCount :: int
  simulateAckFailureAfter :: u64
  simulateAckFailureCount :: u64
  reclaimIntervalSeconds :: int
  reclaimMinIdleSeconds :: int
  reclaimCount :: int
  addr :: string
  consumerPrefix :: string

definition readSettings :: "environment \<Rightarrow> env_error + settings" where
  "readSettings getenv =
     bindE (requiredEnv getenv ''POSTGRES_DSN'') (\<lambda>dsn.
     bindE (requiredEnv getenv ''REDIS_ADDR'') (\<lambda>redis.
     bindE (positiveIntEnv getenv ''WORKER_COUNT'' 4) (\<lambda>workers.
     bindE (positiveIntEnv getenv ''WORKER_READ_COUNT'' 10) (\<lambda>reads.
     bindE (nonNegativeUintEnv getenv ''SIMULATE_ACK_FAILURE_AFTER'' 0) (\<lambda>after.
     bindE (nonNegativeUintEnv getenv ''SIMULATE_ACK_FAILURE_COUNT'' 0) (\<lambda>simulated.
     bindE (positiveIntEnv getenv ''RECLAIM_INTERVAL_SECONDS'' 5) (\<lambda>interval.
     bindE (positiveIntEnv getenv ''RECLAIM_MIN_IDLE_SECONDS'' 30) (\<lambda>idle.
     bindE (positiveIntEnv getenv ''RECLAIM_COUNT'' reads) (\<lambda>claims.
     Inr \<lparr>postgresDSN = dsn, redisAddr = redis, workerCount = workers, readCount = reads,
          simulateAckFailureAfter = after, simulateAckFailureCount = simulated,
          reclaimIntervalSeconds = interval, reclaimMinIdleSeconds = idle, reclaimCount = claims,
          addr = envOrDefault getenv ''HTTP_ADDR'' '':8080'',
          consumerPrefix = envOrDefault getenv ''REDIS_CONSUMER_PREFIX'' ''app''\<rparr>)))))))))"

definition poolConfig :: "settings \<Rightarrow> Config" where
  "poolConfig st =
     \<lparr>WorkerCount = workerCount st, ConsumerPrefix = consumerPrefix st, ReadCount = readCount st,
      Block = 2 * second_ns, ReadErrorBackoff = 0,
      FailureSimulation = \<lparr>fs_After = simulateAckFailureAfter st, fs_Count = simulateAckFailureCount st\<rparr>\<rparr>"

text \<open>Durations are 64-bit numbers of nanoseconds, and the multiplication wraps around.\<close>

definition reclaimerConfig :: "settings \<Rightarrow> ReclaimerConfig" where
  "reclaimerConfig st =
     \<lparr>ConsumerName = consumerPrefix st @ ''-reclaimer'',
      Interval = wrap64 (reclaimIntervalSeconds st * second_ns),
      MinIdle = wrap64 (reclaimMinIdleSeconds st * second_ns),
      Count = reclaimCount st\<rparr>"

text \<open>
  The pgx pool: \<open>'w\<close> is the driver's state (its open connections), \<open>'c\<close> a parsed configuration
  and \<open>'p\<close> a pool.
\<close>

record ('w, 'c, 'p) pgxpool =
  pgx_ParseConfig :: "string \<Rightarrow> string + 'c"
  pgx_NewWithConfig :: "'c \<Rightarrow> 'w \<Rightarrow> 'w \<times> (string + 'p)"
  pgx_Ping :: "'p \<Rightarrow> 'w \<Rightarrow> 'w \<times> string option"
  pgx_Close :: "'p \<Rightarrow> 'w \<Rightarrow> 'w"

datatype open_error = ErrParseConfig string | ErrCreatePool string | ErrPing string

definition appdb_NewPool :: "('w, 'c, 'p) pgxpool \<Rightarrow> string \<Rightarrow> 'w \<Rightarrow> 'w \<times> (open_error + 'p)" where
  "appdb_NewPool pgx databaseURL w =
     (case pgx_ParseConfig pgx databaseURL of
        Inl err \<Rightarrow> (w, Inl (ErrParseConfig err))
      | Inr config \<Rightarrow>
          (case pgx_NewWithConfig pgx config w of
             (w', Inl err) \<Rightarrow> (w', Inl (ErrCreatePool err))
           | (w', Inr pool) \<Rightarrow>
               (case pgx_Ping pgx pool w' of
                  (w'', Some err) \<Rightarrow> (pgx_Close pgx pool w'', Inl (ErrPing err))
                | (w'', None) \<Rightarrow> (w'', Inr pool))))"

datatype start_error =
    StartSettings env_error | StartDatabase open_error | StartEnsureGroup queue_error
  | StartPool worker_error | StartReclaimer worker_error

text \<open>
  From the environment to the pool and the reclaimer; the group is created on the way, and the
  deferred \<open>databasePool.Close()\<close> runs when a later step fails.  \<open>transactions\<close> is the transaction
  interface of a pool.
\<close>

definition startConsumers ::
  "environment \<Rightarrow> ('w, 'c, 'p) pgxpool \<Rightarrow> ('p \<Rightarrow> 'd dbTransaction) \<Rightarrow> 'r redis_client \<Rightarrow> 'w \<Rightarrow> 'r \<Rightarrow>
   'w \<times> 'r \<times> (start_error + ('r, 'd, 'e) outside Pool \<times> ('r, 'd, 'e) outside Reclaimer)" where
  "startConsumers getenv pgx transactions redisClient w s =
     (case readSettings getenv of
        Inl err \<Rightarrow> (w, s, Inl (StartSettings err))
      | Inr st \<Rightarrow>
     (case appdb_NewPool pgx (postgresDSN st) w of
        (w', Inl err) \<Rightarrow> (w', s, Inl (StartDatabase err))
      | (w', Inr databasePool) \<Rightarrow>
          (let streamQueue = NewRedisStreamQueue redisClient
                 (envOrDefault getenv ''REDIS_STREAM'' ''order-events'')
                 (envOrDefault getenv ''REDIS_CONSUMER_GROUP'' ''order-processors'')
           in case EnsureGroup streamQueue s of
                (s', Some err) \<Rightarrow> (pgx_Close pgx databasePool w', s', Inl (StartEnsureGroup err))
              | (s', None) \<Rightarrow>
                  (let processor = NewProcessor (NewPostgresOrderRepository (transactions databasePool))
                   in case NewPool (Some (streamQueueOf streamQueue)) (Some (processorOf processor))
                             (poolConfig st) (Some DefaultLogger) [True] of
                        Inl err \<Rightarrow> (pgx_Close pgx databasePool w', s', Inl (StartPool err))
                      | Inr workerPool \<Rightarrow>
                          (case NewReclaimer (Some (pendingQueueOf streamQueue)) (Some (processorOf processor))
                                  (reclaimerConfig st) (Some DefaultLogger) [True] of
                             Inl err \<Rightarrow> (pgx_Close pgx databasePool w', s', Inl (StartReclaimer err))
                           | Inr reclaimer \<Rightarrow> (w', s', Inr (workerPool, reclaimer)))))))"

section \<open>The HTTP routes\<close>

text \<open>The queue adapter as the statistics handler uses it; \<open>errorText\<close> is the text of an error.\<close>

definition depthProviderOf :: "(queue_error \<Rightarrow> string) \<Rightarrow> 'r RedisStreamQueue \<Rightarrow> 'r QueueDepthProvider" where
  "depthProviderOf errorText q =
     \<lparr>qd_QueueDepth = (\<lambda>s. map_prod id (map_sum errorText id) (QueueDepth q s)),
      qd_StreamLength = (\<lambda>s. map_prod id (map_sum errorText id) (StreamLength q s)),
      qd_PendingCount = (\<lambda>s. map_prod id (map_sum errorText id) (PendingCount q s))\<rparr>"

text \<open>The floating point operations of the snapshot.\<close>

definition goFloats :: "float64 float64_ops" where
  "goFloats = \<lparr>f_zero = Finite 0, f_less = float_less, f_seconds = durationSeconds,
     f_of_u64 = (\<lambda>w. floatOfInt (uint w)), f_div = float_div\<rparr>"

datatype 'f api_response = PlainText nat string | StatsReply "'f http_response" | NoRoute

definition apiHandler ::
  "(queue_error \<Rightarrow> string) \<Rightarrow> 'r RedisStreamQueue \<Rightarrow> int \<Rightarrow> string \<Rightarrow> string \<Rightarrow> 'f Snapshot \<Rightarrow> 'r \<Rightarrow>
   'r \<times> 'f api_response" where
  "apiHandler errorText streamQueue workers path meth snapshot s =
     (if path = ''/healthz'' then (s, PlainText 200 (''ok'' @ [CHR 0x0A]))
      else if path = ''/stats'' then
        map_prod id StatsReply (statsHandler (depthProviderOf errorText streamQueue) workers meth snapshot s)
      else if path = ''/metrics'' then
        (s, PlainText 200 (''# Monitoring metrics will be added in a later step.'' @ [CHR 0x0A]))
      else (s, NoRoute))"

section \<open>What the settings guarantee\<close>

lemma positiveIntEnv_positive:
  "positiveIntEnv getenv name fallback = Inr n \<Longrightarrow> 0 < fallback \<Longrightarrow> 0 < n"
  by (auto simp: positiveIntEnv_def Let_def split: if_splits option.splits)

lemma envOrDefault_nonempty: "fallback \<noteq> '''' \<Longrightarrow> envOrDefault getenv name fallback \<noteq> ''''"
  by (simp add: envOrDefault_def Let_def)

lemma readSettings_Inr:
  assumes "readSettings getenv = Inr st"
  shows "positiveIntEnv getenv ''WORKER_COUNT'' 4 = Inr (workerCount st)"
    and "positiveIntEnv getenv ''WORKER_READ_COUNT'' 10 = Inr (readCount st)"
    and "positiveIntEnv getenv ''RECLAIM_INTERVAL_SECONDS'' 5 = Inr (reclaimIntervalSeconds st)"
    and "positiveIntEnv getenv ''RECLAIM_MIN_IDLE_SECONDS'' 30 = Inr (reclaimMinIdleSeconds st)"
    and "positiveIntEnv getenv ''RECLAIM_COUNT'' (readCount st) = Inr (reclaimCount st)"
    and "consumerPrefix st = envOrDefault getenv ''REDIS_CONSUMER_PREFIX'' ''app''"
  using assms by (clarsimp simp only: readSettings_def bindE_Inr_iff; clarsimp)+

lemma readSettings_positive:
  assumes "readSettings getenv = Inr st"
  shows "0 < workerCount st" "0 < readCount st" "0 < reclaimIntervalSeconds st"
    "0 < reclaimMinIdleSeconds st" "0 < reclaimCount st" "consumerPrefix st \<noteq> ''''"
proof -
  note set = readSettings_Inr [OF assms]
  show "0 < workerCount st" using positiveIntEnv_positive [OF set(1)] by simp
  show reads: "0 < readCount st" using positiveIntEnv_positive [OF set(2)] by simp
  show "0 < reclaimIntervalSeconds st" using positiveIntEnv_positive [OF set(3)] by simp
  show "0 < reclaimMinIdleSeconds st" using positiveIntEnv_positive [OF set(4)] by simp
  show "0 < reclaimCount st" using positiveIntEnv_positive [OF set(5) reads] .
  show "consumerPrefix st \<noteq> ''''" unfolding set(6) by (simp add: envOrDefault_nonempty)
qed


definition demo_environment :: environment where
  "demo_environment name =
     (if name = ''POSTGRES_DSN'' then ''postgres://localhost/orders''
      else if name = ''REDIS_ADDR'' then ''localhost:6379''
      else if name = ''WORKER_COUNT'' then ''12'' else '''')"

text \<open>A driver that counts its open pools.\<close>

definition demo_pgx :: "(nat, string, string) pgxpool" where
  "demo_pgx = \<lparr>pgx_ParseConfig = Inr, pgx_NewWithConfig = (\<lambda>dsn n. (Suc n, Inr dsn)),
     pgx_Ping = (\<lambda>_ n. (n, None)), pgx_Close = (\<lambda>_ n. n - 1)\<rparr>"

lemma demo_settings:
  obtains st where "readSettings demo_environment = Inr st" and "workerCount st = 12"
    and "reclaimIntervalSeconds st = 5" and "reclaimMinIdleSeconds st = 30"
proof -
  have "Atoi ''12'' = Some 12"
    by (simp add: Atoi_def is_digit_def digits_val_def digit_val_def int64_def Let_def)
  with that show thesis
    by (simp add: readSettings_def requiredEnv_def positiveIntEnv_def nonNegativeUintEnv_def
        demo_environment_def Let_def)
qed


section \<open>What the statistics show\<close>

context redis_group
begin

abbreviation depths :: "'s RedisStreamQueue" where
  "depths \<equiv> NewRedisStreamQueue c stream grp_name"

lemma depths_sel: "client depths = c" "streamName depths = stream" "groupName depths = grp_name"
  by (simp_all add: NewRedisStreamQueue_def)

lemma StreamLength_shows:
  assumes "StreamLength depths s = (s', r)"
  shows "group s' = group s" and "r = Inr n \<Longrightarrow> n = int (length (entries (group s)))"
  using assms
  by (auto simp: StreamLength_def depths_sel dest!: len_ok split: prod.splits sum.splits)

lemma PendingCount_shows:
  assumes "PendingCount depths s = (s', r)"
  shows "group s' = group s" and "r = Inr n \<Longrightarrow> n = int (card (dom (pel (group s))))"
  using assms
  by (auto simp: PendingCount_def depths_sel dest!: pending_ok split: prod.splits sum.splits)

lemma QueueDepth_shows:
  assumes "QueueDepth depths s = (s', r)"
  shows "group s' = group s"
    and "r = Inr n \<Longrightarrow> n = int (length (entries (group s))) \<or>
      (\<exists>s1 gs. XInfoGroups c stream s = (s1, Inr gs) \<and> consumerGroupLag gs grp_name = (n, True))"
proof -
  obtain s1 groups where info: "XInfoGroups c stream s = (s1, groups)" by (meson surj_pair)
  obtain s2 len where len: "StreamLength depths s1 = (s2, len)" by (meson surj_pair)
  have s1: "group s1 = group s" using info_frame [of s] info by simp
  show "group s' = group s"
    using assms s1 StreamLength_shows(1) [OF len]
    by (auto simp: QueueDepth_def Let_def len info depths_sel split: sum.splits prod.splits bool.splits)
  show "r = Inr n \<Longrightarrow> n = int (length (entries (group s))) \<or>
      (\<exists>s1 gs. XInfoGroups c stream s = (s1, Inr gs) \<and> consumerGroupLag gs grp_name = (n, True))"
    using assms s1 StreamLength_shows(2) [OF len, of n]
    by (auto simp: QueueDepth_def Let_def len info depths_sel split: sum.splits prod.splits bool.splits)
qed

end

lemma stats_reply:
  assumes "statsHandler queue workers ''GET'' snap s = (s3, resp)"
    and "qd_QueueDepth queue s = (s1, r1)" and "qd_StreamLength queue s1 = (s2, r2)"
    and "qd_PendingCount queue s2 = (s4, r3)"
  shows "s3 = s4 \<and> (\<exists>body. resp = StatsJSON body \<and>
    (sr_QueueError body = '''' \<longrightarrow> r1 = Inr (sr_QueueDepth body) \<and> r2 = Inr (sr_StreamLength body) \<and>
      r3 = Inr (sr_PendingDepth body)))"
  using statsHandler_degrades [of queue workers "''GET''" snap s] assms
  by (auto simp: Let_def split: sum.splits)



end
