(* ===== verification/Producer.thy ===== *)
theory Producer
  imports Queue Go_Number
begin

text \<open>
  \<open>cmd/producer/generator.go\<close>: the load generator.  The generator is a record threaded through
  the calls; the callback \<open>emit\<close> acts on a state of its own and may fail.  The pseudo-random
  source of \<open>math/rand\<close> is an argument (\<open>intn\<close>), of which only the range of its results is
  used.  An index that the source draws out of the range of a slice is a panic.
\<close>

section \<open>Data\<close>

definition deterministicEpoch :: gotime where
  "deterministicEpoch = days_of_date 2025 1 1 * (86400 * second_ns)"

record producerConfig =
  pc_Total :: int
  pc_DuplicateRatio :: float64
  pc_OutOfOrderRatio :: float64
  pc_InvalidRatio :: float64
  pc_RedisAddr :: string
  pc_Stream :: string
  pc_Group :: string
  pc_Seed :: int
  pc_BatchSize :: int

record generatedEvent =
  ge_Event :: OrderEvent
  ge_Duplicate :: bool
  ge_OutOfOrder :: bool
  ge_Invalid :: bool

record producerSummary =
  ps_TotalRequested :: int
  ps_TotalPublished :: int
  ps_UniqueEventIDs :: int
  ps_DuplicateEvents :: int
  ps_UniqueOrderIDs :: int
  ps_OutOfOrderEvents :: int
  ps_InvalidTransitionEvents :: int
  ps_Seed :: int
  ps_RedisStream :: string

definition zeroSummary :: producerSummary where
  "zeroSummary = \<lparr>ps_TotalRequested = 0, ps_TotalPublished = 0, ps_UniqueEventIDs = 0,
     ps_DuplicateEvents = 0, ps_UniqueOrderIDs = 0, ps_OutOfOrderEvents = 0,
     ps_InvalidTransitionEvents = 0, ps_Seed = 0, ps_RedisStream = ''''\<rparr>"

record 'g eventGenerator =
  eg_config :: producerConfig
  eg_random :: 'g
  eg_baseTime :: gotime
  eventSequence :: int
  orderSequence :: int
  timeSequence :: int
  duplicatesRemaining :: int
  eg_summary :: producerSummary

section \<open>Validation\<close>

datatype config_error =
    ErrTotal | ErrBatchSize | ErrRedisAddr | ErrStream | ErrGroup | ErrRatio string
  | ErrNoSourceEvent | ErrRatiosTooLarge int int

definition ratioCount :: "int \<Rightarrow> float64 \<Rightarrow> int" where
  "ratioCount n ratio = intOfFloat (floor64 (float_mult (floatOfInt n) ratio))"

definition outOfOrderScenarioSize :: "int \<Rightarrow> int" where
  "outOfOrderScenarioSize count =
     (let paidBeforeCreated = quot (wrap64 (count + 1)) 2; shippedBeforePaid = quot count 2
      in wrap64 (wrap64 (2 * paidBeforeCreated) + wrap64 (3 * shippedBeforePaid)))"

definition badRatio :: "float64 \<Rightarrow> bool" where
  "badRatio x \<longleftrightarrow> isNaN x \<or> isInf x \<or> float_less x (Finite 0) \<or> float_less (Finite 1) x"

text \<open>The loop over the three ratios: the name of the first bad one.\<close>

fun firstBadRatio :: "(string \<times> float64) list \<Rightarrow> string option" where
  "firstBadRatio [] = None"
| "firstBadRatio ((name, x) # rest) = (if badRatio x then Some name else firstBadRatio rest)"

definition validateConfig :: "producerConfig \<Rightarrow> config_error option" where
  "validateConfig c =
     (if pc_Total c \<le> 0 then Some ErrTotal
      else if pc_BatchSize c \<le> 0 then Some ErrBatchSize
      else if pc_RedisAddr c = '''' then Some ErrRedisAddr
      else if pc_Stream c = '''' then Some ErrStream
      else if pc_Group c = '''' then Some ErrGroup
      else
        (case firstBadRatio [(''duplicate ratio'', pc_DuplicateRatio c),
                (''out-of-order ratio'', pc_OutOfOrderRatio c), (''invalid ratio'', pc_InvalidRatio c)] of
           Some name \<Rightarrow> Some (ErrRatio name)
         | None \<Rightarrow>
             (let duplicateCount = ratioCount (pc_Total c) (pc_DuplicateRatio c);
                  uniqueCount = wrap64 (pc_Total c - duplicateCount)
              in if duplicateCount > 0 \<and> uniqueCount = 0 then Some ErrNoSourceEvent
                 else
                   (let outOfOrderCount = ratioCount (pc_Total c) (pc_OutOfOrderRatio c);
                        invalidCount = ratioCount (pc_Total c) (pc_InvalidRatio c);
                        requiredUnique = wrap64 (outOfOrderScenarioSize outOfOrderCount +
                          wrap64 (4 * invalidCount))
                    in if requiredUnique > uniqueCount
                       then Some (ErrRatiosTooLarge requiredUnique uniqueCount) else None))))"

section \<open>Building events\<close>

definition nextOrderID :: "'g eventGenerator \<Rightarrow> string \<times> 'g eventGenerator" where
  "nextOrderID g =
     (let n = orderSequence g + 1;
          s = eg_summary g
      in (''order-'' @ appendInt (pc_Seed (eg_config g)) 0 @ ''-'' @ appendInt n 9,
          g\<lparr>orderSequence := n, eg_summary := s\<lparr>ps_UniqueOrderIDs := ps_UniqueOrderIDs s + 1\<rparr>\<rparr>))"

text \<open>\<open>json.Marshal\<close> of the map: keys in order, no value that needs an escape or can fail.\<close>

definition quoted :: "string \<Rightarrow> string" where
  "quoted s = CHR 0x22 # s @ [CHR 0x22]"

definition marshalPayload :: "int \<Rightarrow> int \<Rightarrow> Status \<Rightarrow> string" where
  "marshalPayload seed sq status =
     ''{'' @ quoted ''generator'' @ '':'' @ quoted ''load-producer'' @ '','' @
     quoted ''seed'' @ '':'' @ appendInt seed 0 @ '','' @
     quoted ''sequence'' @ '':'' @ appendInt sq 0 @ '','' @
     quoted ''status'' @ '':'' @ quoted status @ ''}''"

definition newEvent ::
  "string \<Rightarrow> Status \<Rightarrow> gotime \<Rightarrow> 'g eventGenerator \<Rightarrow> OrderEvent \<times> 'g eventGenerator" where
  "newEvent orderID status timestamp g =
     (let n = eventSequence g + 1;
          seed = pc_Seed (eg_config g)
      in (\<lparr>EventID = ''event-'' @ appendInt seed 0 @ ''-'' @ appendInt n 9, OrderID = orderID,
           Status = status, Timestamp = timestamp, Payload = marshalPayload seed n status\<rparr>,
          g\<lparr>eventSequence := n\<rparr>))"

definition reserveTimes :: "nat \<Rightarrow> 'g eventGenerator \<Rightarrow> gotime list \<times> 'g eventGenerator" where
  "reserveTimes count g =
     (map (\<lambda>index. eg_baseTime g + wrap64 (wrap64 (timeSequence g + int index) * second_ns)) [0..<count],
      g\<lparr>timeSequence := timeSequence g + int count\<rparr>)"

section \<open>Emitting\<close>

type_synonym ('s, 'e) emitter = "generatedEvent \<Rightarrow> 's \<Rightarrow> 's \<times> 'e option"
type_synonym ('g, 's, 'e) generating = "'g eventGenerator \<times> 's \<Rightarrow> ('g eventGenerator \<times> 's) \<times> 'e option"

text \<open>\<open>if err := ...; err != nil { return err }\<close>\<close>

definition andThen :: "('g, 's, 'e) generating \<Rightarrow> ('g, 's, 'e) generating \<Rightarrow> ('g, 's, 'e) generating" where
  "andThen a b st = (case a st of (st', Some err) \<Rightarrow> (st', Some err) | (st', None) \<Rightarrow> b st')"

definition countUnique :: "generatedEvent \<Rightarrow> producerSummary \<Rightarrow> producerSummary" where
  "countUnique generated s =
     s\<lparr>ps_TotalPublished := ps_TotalPublished s + 1,
       ps_UniqueEventIDs := ps_UniqueEventIDs s + 1,
       ps_OutOfOrderEvents := ps_OutOfOrderEvents s + (if ge_OutOfOrder generated then 1 else 0),
       ps_InvalidTransitionEvents := ps_InvalidTransitionEvents s + (if ge_Invalid generated then 1 else 0)\<rparr>"

definition countDuplicate :: "producerSummary \<Rightarrow> producerSummary" where
  "countDuplicate s =
     s\<lparr>ps_TotalPublished := ps_TotalPublished s + 1, ps_DuplicateEvents := ps_DuplicateEvents s + 1\<rparr>"

definition duplicateOf :: "generatedEvent \<Rightarrow> generatedEvent" where
  "duplicateOf generated =
     \<lparr>ge_Event = ge_Event generated, ge_Duplicate = True, ge_OutOfOrder = False, ge_Invalid = False\<rparr>"

definition emitUnique :: "('s, 'e) emitter \<Rightarrow> generatedEvent \<Rightarrow> ('g, 's, 'e) generating" where
  "emitUnique emit generated st =
     (case st of (g, s) \<Rightarrow>
        (case emit generated s of
           (s1, Some err) \<Rightarrow> ((g, s1), Some err)
         | (s1, None) \<Rightarrow>
             (let g1 = g\<lparr>eg_summary := countUnique generated (eg_summary g)\<rparr> in
              if duplicatesRemaining g1 = 0 then ((g1, s1), None)
              else
                (case emit (duplicateOf generated) s1 of
                   (s2, Some err) \<Rightarrow> ((g1, s2), Some err)
                 | (s2, None) \<Rightarrow>
                     ((g1\<lparr>duplicatesRemaining := duplicatesRemaining g1 - 1,
                          eg_summary := countDuplicate (eg_summary g1)\<rparr>, s2), None)))))"

definition normalEvent :: "OrderEvent \<Rightarrow> generatedEvent" where
  "normalEvent ev = \<lparr>ge_Event = ev, ge_Duplicate = False, ge_OutOfOrder = False, ge_Invalid = False\<rparr>"

definition outOfOrderEvent :: "OrderEvent \<Rightarrow> generatedEvent" where
  "outOfOrderEvent ev = (normalEvent ev)\<lparr>ge_OutOfOrder := True\<rparr>"

text \<open>One round of the loop, by the parity of the index.\<close>

definition outOfOrderPair :: "('s, 'e) emitter \<Rightarrow> ('g, 's, 'e) generating" where
  "outOfOrderPair emit st =
     (case st of (g, s) \<Rightarrow>
        (let (orderID, g) = nextOrderID g;
             (ts, g) = reserveTimes 2 g;
             (created, g) = newEvent orderID StatusCreated (ts ! 0) g;
             (paid, g) = newEvent orderID StatusPaid (ts ! 1) g
         in andThen (emitUnique emit (outOfOrderEvent paid)) (emitUnique emit (normalEvent created)) (g, s)))"

definition outOfOrderTriple :: "('s, 'e) emitter \<Rightarrow> ('g, 's, 'e) generating" where
  "outOfOrderTriple emit st =
     (case st of (g, s) \<Rightarrow>
        (let (orderID, g) = nextOrderID g;
             (ts, g) = reserveTimes 3 g;
             (created, g) = newEvent orderID StatusCreated (ts ! 0) g;
             (paid, g) = newEvent orderID StatusPaid (ts ! 1) g;
             (shipped, g) = newEvent orderID StatusShipped (ts ! 2) g
         in andThen (emitUnique emit (outOfOrderEvent shipped))
              (andThen (emitUnique emit (normalEvent created)) (emitUnique emit (normalEvent paid))) (g, s)))"

text \<open>The loop from an index, for the number of rounds that are left.\<close>

fun outOfOrderFrom :: "('s, 'e) emitter \<Rightarrow> nat \<Rightarrow> nat \<Rightarrow> ('g, 's, 'e) generating" where
  "outOfOrderFrom emit index 0 st = (st, None)"
| "outOfOrderFrom emit index (Suc left) st =
     andThen (if index mod 2 = 0 then outOfOrderPair emit else outOfOrderTriple emit)
       (outOfOrderFrom emit (Suc index) left) st"

definition generateOutOfOrder :: "('s, 'e) emitter \<Rightarrow> int \<Rightarrow> ('g, 's, 'e) generating" where
  "generateOutOfOrder emit count = outOfOrderFrom emit 0 (nat count)"

text \<open>The inner loops of the other two: an event per status, emitted before the next is built.\<close>

fun emitStatuses ::
  "('s, 'e) emitter \<Rightarrow> (Status \<Rightarrow> bool) \<Rightarrow> string \<Rightarrow> (Status \<times> gotime) list \<Rightarrow> ('g, 's, 'e) generating" where
  "emitStatuses emit invalid orderID [] st = (st, None)"
| "emitStatuses emit invalid orderID ((status, time) # rest) st =
     (case st of (g, s) \<Rightarrow>
        (let (event, g) = newEvent orderID status time g
         in andThen (emitUnique emit ((normalEvent event)\<lparr>ge_Invalid := invalid status\<rparr>))
              (emitStatuses emit invalid orderID rest) (g, s)))"

definition invalidStatuses :: "Status list" where
  "invalidStatuses = [StatusCreated, StatusPaid, StatusShipped, StatusCancelled]"

fun invalidFrom :: "('s, 'e) emitter \<Rightarrow> nat \<Rightarrow> ('g, 's, 'e) generating" where
  "invalidFrom emit 0 st = (st, None)"
| "invalidFrom emit (Suc left) st =
     (case st of (g, s) \<Rightarrow>
        (let (orderID, g) = nextOrderID g;
             (ts, g) = reserveTimes 4 g
         in andThen (emitStatuses emit (\<lambda>status. status = StatusCancelled) orderID (zip invalidStatuses ts))
              (invalidFrom emit left) (g, s)))"

definition generateInvalid :: "('s, 'e) emitter \<Rightarrow> int \<Rightarrow> ('g, 's, 'e) generating" where
  "generateInvalid emit count = invalidFrom emit (nat count)"

definition lifecycles :: "Status list list" where
  "lifecycles = [[StatusCreated], [StatusCreated, StatusPaid], [StatusCreated, StatusCancelled],
     [StatusCreated, StatusPaid, StatusShipped], [StatusCreated, StatusPaid, StatusCancelled]]"

text \<open>The errors of \<open>generate\<close>: those of \<open>emit\<close>, of the configuration, and the final check.\<close>

datatype 'e generate_error =
    EmitFailed 'e | ConfigInvalid config_error | GeneratedCount int int | IndexOutOfRange

text \<open>A drawn lifecycle, cut to the number of events that are left.\<close>

definition drawLifecycle ::
  "(nat \<Rightarrow> 'g \<Rightarrow> nat \<times> 'g) \<Rightarrow> int \<Rightarrow> 'g eventGenerator \<Rightarrow> Status list option \<times> 'g eventGenerator" where
  "drawLifecycle intn count g =
     (let (i, r) = intn (length lifecycles) (eg_random g);
          g = g\<lparr>eg_random := r\<rparr>
      in if i < length lifecycles
         then (Some (if int (length (lifecycles ! i)) > count then take (nat count) (lifecycles ! i)
                     else lifecycles ! i), g)
         else (None, g))"

lemma lifecycle_nonempty: "i < length lifecycles \<Longrightarrow> lifecycles ! i \<noteq> []"
  by (auto simp: lifecycles_def less_Suc_eq)

lemma drawLifecycle_nonempty:
  assumes "drawLifecycle intn count g = (Some steps, g')" and "0 < count"
  shows "steps \<noteq> []" and "int (length steps) \<le> count"
  using assms lifecycle_nonempty by (auto simp: drawLifecycle_def Let_def split: prod.splits if_splits)

function generateNormal ::
  "(nat \<Rightarrow> 'g \<Rightarrow> nat \<times> 'g) \<Rightarrow> ('s, 'e generate_error) emitter \<Rightarrow> int \<Rightarrow> ('g, 's, 'e generate_error) generating" where
  "generateNormal intn emit count st =
     (if count > 0 then
        (case st of (g, s) \<Rightarrow>
           (case nextOrderID g of (orderID, g1) \<Rightarrow>
              (case drawLifecycle intn count g1 of
                 (None, g2) \<Rightarrow> ((g2, s), Some IndexOutOfRange)
               | (Some steps, g2) \<Rightarrow>
                   (case reserveTimes (length steps) g2 of (ts, g3) \<Rightarrow>
                      andThen (emitStatuses emit (\<lambda>status. False) orderID (zip steps ts))
                        (generateNormal intn emit (count - int (length steps))) (g3, s)))))
      else (st, None))"
  by pat_completeness auto

termination
  by (relation "measure (\<lambda>(intn, emit, count, st). nat count)")
     (auto dest!: drawLifecycle_nonempty(1) [OF sym])

declare generateNormal.simps [simp del]

section \<open>The whole run\<close>

definition startGenerator :: "producerConfig \<Rightarrow> 'g \<Rightarrow> 'g eventGenerator" where
  "startGenerator config source =
     \<lparr>eg_config = config, eg_random = source,
      eg_baseTime = deterministicEpoch + wrap64 (pc_Seed config * second_ns),
      eventSequence = 0, orderSequence = 0, timeSequence = 0,
      duplicatesRemaining = ratioCount (pc_Total config) (pc_DuplicateRatio config),
      eg_summary = zeroSummary\<lparr>ps_TotalRequested := pc_Total config, ps_Seed := pc_Seed config,
        ps_RedisStream := pc_Stream config\<rparr>\<rparr>"

definition wrapEmit :: "('s, 'e) emitter \<Rightarrow> ('s, 'e generate_error) emitter" where
  "wrapEmit emit event s = map_prod id (map_option EmitFailed) (emit event s)"

text \<open>The summary and the error, if any; \<open>source\<close> is the random source made of the seed.\<close>

definition generate ::
  "(nat \<Rightarrow> 'g \<Rightarrow> nat \<times> 'g) \<Rightarrow> 'g \<Rightarrow> producerConfig \<Rightarrow> ('s, 'e) emitter \<Rightarrow> 's \<Rightarrow>
   's \<times> producerSummary \<times> 'e generate_error option" where
  "generate intn source config emit s =
     (case validateConfig config of
        Some err \<Rightarrow> (s, zeroSummary, Some (ConfigInvalid err))
      | None \<Rightarrow>
          (let duplicateCount = ratioCount (pc_Total config) (pc_DuplicateRatio config);
               outOfOrderCount = ratioCount (pc_Total config) (pc_OutOfOrderRatio config);
               invalidCount = ratioCount (pc_Total config) (pc_InvalidRatio config);
               uniqueTarget = wrap64 (pc_Total config - duplicateCount)
           in case andThen (generateOutOfOrder (wrapEmit emit) outOfOrderCount)
                (andThen (generateInvalid (wrapEmit emit) invalidCount)
                  (\<lambda>(g, s). generateNormal intn (wrapEmit emit)
                     (wrap64 (uniqueTarget - ps_UniqueEventIDs (eg_summary g))) (g, s)))
                (startGenerator config source, s) of
                ((g, s'), Some err) \<Rightarrow> (s', eg_summary g, Some err)
              | ((g, s'), None) \<Rightarrow>
                  if ps_TotalPublished (eg_summary g) \<noteq> pc_Total config
                  then (s', eg_summary g, Some (GeneratedCount (ps_TotalPublished (eg_summary g)) (pc_Total config)))
                  else (s', eg_summary g, None)))"

section \<open>Publishing in batches\<close>

text \<open>What the closures of \<open>publishGenerated\<close> share; \<open>'r\<close> is the state of the publisher.\<close>

record 'r publishing =
  pub_batch :: "generatedEvent list"
  pub_total :: int
  pub_nextProgress :: int
  pub_output :: "string list"
  pub_queue :: 'r

type_synonym ('r, 'e) publisher = "OrderEvent \<Rightarrow> 'r \<Rightarrow> 'r \<times> ('e + string)"

datatype 'e publish_error = PublishFailed string int 'e

definition progressLine :: "int \<Rightarrow> int \<Rightarrow> string" where
  "progressLine published requested =
     ''progress published='' @ appendInt published 0 @ '' requested='' @ appendInt requested 0 @ [CHR 0x0A]"

fun flushEvents ::
  "('r, 'e) publisher \<Rightarrow> producerConfig \<Rightarrow> generatedEvent list \<Rightarrow> 'r publishing \<Rightarrow>
   'r publishing \<times> 'e publish_error option" where
  "flushEvents publish config [] p = (p, None)"
| "flushEvents publish config (generated # rest) p =
     (case publish (ge_Event generated) (pub_queue p) of
        (q', Inl err) \<Rightarrow>
          (p\<lparr>pub_queue := q'\<rparr>, Some (PublishFailed (EventID (ge_Event generated)) (pub_total p) err))
      | (q', Inr _) \<Rightarrow>
          (let p1 = p\<lparr>pub_queue := q', pub_total := pub_total p + 1\<rparr>;
               p2 = (if pub_total p1 \<ge> pub_nextProgress p1
                     then p1\<lparr>pub_output := pub_output p1 @ [progressLine (pub_total p1) (pc_Total config)],
                             pub_nextProgress := pub_nextProgress p1 + 10000\<rparr>
                     else p1)
           in flushEvents publish config rest p2))"

definition flush ::
  "('r, 'e) publisher \<Rightarrow> producerConfig \<Rightarrow> 'r publishing \<Rightarrow> 'r publishing \<times> 'e publish_error option" where
  "flush publish config p =
     (case flushEvents publish config (pub_batch p) p of
        (p', Some err) \<Rightarrow> (p', Some err)
      | (p', None) \<Rightarrow> (p'\<lparr>pub_batch := []\<rparr>, None))"

definition emitBatched ::
  "('r, 'e) publisher \<Rightarrow> producerConfig \<Rightarrow> ('r publishing, 'e publish_error) emitter" where
  "emitBatched publish config event p =
     (let p1 = p\<lparr>pub_batch := pub_batch p @ [event]\<rparr> in
      if int (length (pub_batch p1)) < pc_BatchSize config then (p1, None)
      else flush publish config p1)"

definition startPublishing :: "'r \<Rightarrow> 'r publishing" where
  "startPublishing q = \<lparr>pub_batch = [], pub_total = 0, pub_nextProgress = 10000, pub_output = [], pub_queue = q\<rparr>"

definition publishGenerated ::
  "(nat \<Rightarrow> 'g \<Rightarrow> nat \<times> 'g) \<Rightarrow> 'g \<Rightarrow> ('r, 'e) publisher \<Rightarrow> producerConfig \<Rightarrow> 'r \<Rightarrow>
   'r publishing \<times> ('e publish_error generate_error + producerSummary)" where
  "publishGenerated intn source publish config q =
     (case generate intn source config (emitBatched publish config) (startPublishing q) of
        (p, summary, Some err) \<Rightarrow> (p, Inl err)
      | (p, summary, None) \<Rightarrow>
          (case flush publish config p of
             (p', Some err) \<Rightarrow> (p', Inl (EmitFailed err))
           | (p', None) \<Rightarrow> (p', Inr (summary\<lparr>ps_TotalPublished := pub_total p'\<rparr>))))"

definition printSummary :: "producerSummary \<Rightarrow> string list" where
  "printSummary s =
     (let line = (\<lambda>label value. label @ ''='' @ appendInt value 0 @ [CHR 0x0A]) in
      [''producer_summary'' @ [CHR 0x0A],
       line ''total_requested'' (ps_TotalRequested s), line ''total_published'' (ps_TotalPublished s),
       line ''unique_event_ids'' (ps_UniqueEventIDs s), line ''duplicate_events'' (ps_DuplicateEvents s),
       line ''unique_order_ids'' (ps_UniqueOrderIDs s), line ''out_of_order_events'' (ps_OutOfOrderEvents s),
       line ''invalid_transition_events'' (ps_InvalidTransitionEvents s), line ''seed'' (ps_Seed s),
       ''redis_stream='' @ ps_RedisStream s @ [CHR 0x0A]])"

end
