(* ===== verification/Producer_Actions.thy ===== *)
theory Producer_Actions
  imports Producer "HOL-Library.Multiset"
begin

text \<open>
  The phases of the generator.  A generating action is described by the unique events it emits
  (\<open>emits\<close>), by what it does to the generator's counters (\<open>advanced\<close>), and by the blocks of
  events it makes of each order (\<open>scripted\<close>); all three compose, so that the loops are done by
  induction.
\<close>

section \<open>Sequences of emissions\<close>

text \<open>Emitting a list until the first error.\<close>

fun emitAll :: "('s, 'e) emitter \<Rightarrow> generatedEvent list \<Rightarrow> 's \<Rightarrow> 's \<times> 'e option" where
  "emitAll emit [] s = (s, None)"
| "emitAll emit (x # xs) s =
     (case emit x s of (s', Some err) \<Rightarrow> (s', Some err) | (s', None) \<Rightarrow> emitAll emit xs s')"

lemma emitAll_append:
  "emitAll emit (xs @ ys) s =
     (case emitAll emit xs s of (s', Some err) \<Rightarrow> (s', Some err) | (s', None) \<Rightarrow> emitAll emit ys s')"
  by (induction xs arbitrary: s) (auto split: prod.split option.split)

text \<open>The first \<open>d\<close> events of a list are each followed by a duplicate.\<close>

fun withDuplicates :: "nat \<Rightarrow> generatedEvent list \<Rightarrow> generatedEvent list" where
  "withDuplicates d [] = []"
| "withDuplicates 0 (x # xs) = x # withDuplicates 0 xs"
| "withDuplicates (Suc d) (x # xs) = x # duplicateOf x # withDuplicates d xs"

lemma withDuplicates_append:
  "withDuplicates d (xs @ ys) = withDuplicates d xs @ withDuplicates (d - length xs) ys"
  by (induction d xs rule: withDuplicates.induct) simp_all

lemma withDuplicates_0 [simp]: "withDuplicates 0 xs = xs"
  by (induction xs) simp_all

lemma withDuplicates_facts:
  "length (withDuplicates d xs) = length xs + min d (length xs)"
  "length (filter ge_Duplicate (withDuplicates d xs)) =
     length (filter ge_Duplicate xs) + min d (length xs)"
  "filter (\<lambda>x. \<not> ge_Duplicate x) (withDuplicates d xs) = filter (\<lambda>x. \<not> ge_Duplicate x) xs"
  by (induction d xs rule: withDuplicates.induct) (simp_all add: duplicateOf_def)

section \<open>Actions\<close>

text \<open>
  From generator \<open>g\<close> the action emits \<open>xs\<close> with the duplicates that are still due, whatever
  the emitter, and leaves generator \<open>g'\<close> unless the emitter fails.
\<close>

definition emits ::
  "(('s, 'e) emitter \<Rightarrow> ('g, 's, 'e) generating) \<Rightarrow> 'g eventGenerator \<Rightarrow> generatedEvent list \<Rightarrow>
   'g eventGenerator \<Rightarrow> bool" where
  "emits act g xs g' \<longleftrightarrow>
     (\<forall>emit s. case emitAll emit (withDuplicates (nat (duplicatesRemaining g)) xs) s of
        (s', None) \<Rightarrow> act emit (g, s) = ((g', s'), None)
      | (s', Some err) \<Rightarrow> \<exists>g''. act emit (g, s) = ((g'', s'), Some err))"

definition eventIDOf :: "int \<Rightarrow> int \<Rightarrow> string" where
  "eventIDOf seed n = ''event-'' @ appendInt seed 0 @ ''-'' @ appendInt n 9"

text \<open>The counters before and after the unique events \<open>xs\<close>, and their ids.\<close>

definition counters_advanced :: "generatedEvent list \<Rightarrow> int \<Rightarrow> producerSummary \<Rightarrow> producerSummary \<Rightarrow> bool" where
  "counters_advanced xs d s s' \<longleftrightarrow>
     ps_TotalRequested s' = ps_TotalRequested s \<and> ps_Seed s' = ps_Seed s \<and>
     ps_RedisStream s' = ps_RedisStream s \<and>
     ps_UniqueEventIDs s' = ps_UniqueEventIDs s + int (length xs) \<and>
     ps_DuplicateEvents s' = ps_DuplicateEvents s + min d (int (length xs)) \<and>
     ps_TotalPublished s' = ps_TotalPublished s + int (length xs) + min d (int (length xs)) \<and>
     ps_OutOfOrderEvents s' = ps_OutOfOrderEvents s + int (length (filter ge_OutOfOrder xs)) \<and>
     ps_InvalidTransitionEvents s' = ps_InvalidTransitionEvents s + int (length (filter ge_Invalid xs))"

definition advanced :: "'g eventGenerator \<Rightarrow> generatedEvent list \<Rightarrow> 'g eventGenerator \<Rightarrow> bool" where
  "advanced g xs g' \<longleftrightarrow>
     0 \<le> duplicatesRemaining g \<and> eg_config g' = eg_config g \<and>
     duplicatesRemaining g' = max 0 (duplicatesRemaining g - int (length xs)) \<and>
     counters_advanced xs (duplicatesRemaining g) (eg_summary g) (eg_summary g') \<and>
     list_all (\<lambda>x. \<not> ge_Duplicate x) xs \<and>
     mset (map (EventID \<circ> ge_Event) xs) =
       mset (map (eventIDOf (pc_Seed (eg_config g))) [eventSequence g + 1..eventSequence g']) \<and>
     eventSequence g' = eventSequence g + int (length xs)"

definition produces ::
  "(('s, 'e) emitter \<Rightarrow> ('g, 's, 'e) generating) \<Rightarrow> 'g eventGenerator \<Rightarrow> generatedEvent list \<Rightarrow>
   'g eventGenerator \<Rightarrow> bool" where
  "produces act g xs g' \<longleftrightarrow> emits act g xs g' \<and> advanced g xs g'"

lemma upto_append: "a \<le> b \<Longrightarrow> b \<le> k \<Longrightarrow> [a + 1..k] = [a + 1..b] @ [b + 1..(k :: int)]"
  using upto_split2 [of "a + 1" b k] by (cases "a = b") simp_all

lemma advanced_append:
  assumes "advanced g xs g1" and "advanced g1 ys g2"
  shows "advanced g (xs @ ys) g2"
proof -
  have "[eventSequence g + 1..eventSequence g2] =
      [eventSequence g + 1..eventSequence g1] @ [eventSequence g1 + 1..eventSequence g2]"
    using assms by (intro upto_append) (simp_all add: advanced_def)
  moreover have "counters_advanced (xs @ ys) (duplicatesRemaining g) (eg_summary g) (eg_summary g2)"
    using assms by (auto simp: advanced_def counters_advanced_def min_def max_def)
  ultimately show ?thesis
    using assms by (auto simp: advanced_def)
qed

lemma emits_andThen:
  fixes a b :: "('s, 'e) emitter \<Rightarrow> ('g, 's, 'e) generating"
  assumes "emits a g xs g1" and "duplicatesRemaining g1 = max 0 (duplicatesRemaining g - int (length xs))"
    and "emits b g1 ys g2"
  shows "emits (\<lambda>emit. andThen (a emit) (b emit)) g (xs @ ys) g2"
  unfolding emits_def
proof (intro allI)
  fix emit :: "('s, 'e) emitter" and s
  have due: "nat (duplicatesRemaining g1) = nat (duplicatesRemaining g) - length xs"
    using assms(2) by simp
  obtain s1 r where run: "emitAll emit (withDuplicates (nat (duplicatesRemaining g)) xs) s = (s1, r)"
    by (meson surj_pair)
  show "case emitAll emit (withDuplicates (nat (duplicatesRemaining g)) (xs @ ys)) s of
      (s', None) \<Rightarrow> andThen (a emit) (b emit) (g, s) = ((g2, s'), None)
    | (s', Some err) \<Rightarrow> \<exists>g''. andThen (a emit) (b emit) (g, s) = ((g'', s'), Some err)"
    using assms(1) [unfolded emits_def, rule_format, of emit s]
      assms(3) [unfolded emits_def, rule_format, of emit s1] run
    by (cases r) (auto simp: withDuplicates_append emitAll_append due andThen_def split: prod.splits option.splits)
qed

lemma produces_andThen:
  assumes "produces a g xs g1" and "produces b g1 ys g2"
  shows "produces (\<lambda>emit. andThen (a emit) (b emit)) g (xs @ ys) g2"
proof -
  have "duplicatesRemaining g1 = max 0 (duplicatesRemaining g - int (length xs))"
    using assms(1) by (simp add: produces_def advanced_def)
  with assms show ?thesis
    unfolding produces_def by (blast intro: emits_andThen advanced_append)
qed

section \<open>The scenarios\<close>

text \<open>The generator after one unique event and its duplicate, if one is due.\<close>

definition bump :: "generatedEvent \<Rightarrow> 'g eventGenerator \<Rightarrow> 'g eventGenerator" where
  "bump x g =
     (if duplicatesRemaining g = 0 then g\<lparr>eg_summary := countUnique x (eg_summary g)\<rparr>
      else g\<lparr>duplicatesRemaining := duplicatesRemaining g - 1,
             eg_summary := countDuplicate (countUnique x (eg_summary g))\<rparr>)"

lemma emits_emitUnique:
  assumes "0 \<le> duplicatesRemaining g"
  shows "emits (\<lambda>emit. emitUnique emit x) g [x] (bump x g)"
proof (cases "duplicatesRemaining g = 0")
  case True
  then show ?thesis
    by (auto simp: emits_def emitUnique_def bump_def Let_def split: prod.splits option.splits)
next
  case False
  with assms obtain d where "nat (duplicatesRemaining g) = Suc d" by (cases "nat (duplicatesRemaining g)") auto
  with False show ?thesis
    by (auto simp: emits_def emitUnique_def bump_def Let_def split: prod.splits option.splits)
qed

lemma bump_sel [simp]:
  "eg_config (bump x g) = eg_config g" "eventSequence (bump x g) = eventSequence g"
  "eg_baseTime (bump x g) = eg_baseTime g" "orderSequence (bump x g) = orderSequence g"
  "timeSequence (bump x g) = timeSequence g" "eg_random (bump x g) = eg_random g"
  by (simp_all add: bump_def)

lemma bump_due: "0 \<le> duplicatesRemaining g \<Longrightarrow> duplicatesRemaining (bump x g) = max 0 (duplicatesRemaining g - 1)"
  by (simp add: bump_def)

lemma emits_emitUnique_then:
  assumes "0 \<le> duplicatesRemaining g" and "emits b (bump x g) ys g'"
  shows "emits (\<lambda>emit. andThen (emitUnique emit x) (b emit)) g (x # ys) g'"
  using emits_andThen [OF emits_emitUnique [OF assms(1)] _ assms(2)] assms(1) by (simp add: bump_due)

text \<open>Counters after a list of unique events.\<close>

lemma counters_bump:
  assumes "0 \<le> duplicatesRemaining g" and "0 \<le> duplicatesRemaining g"
  shows "counters_advanced [x] (duplicatesRemaining g) (eg_summary g) (eg_summary (bump x g))"
  using assms by (auto simp: counters_advanced_def bump_def countUnique_def countDuplicate_def)

lemma counters_trans:
  assumes "counters_advanced xs d s s1" and "counters_advanced ys (max 0 (d - int (length xs))) s1 s2" and "0 \<le> d"
  shows "counters_advanced (xs @ ys) d s s2"
  using assms by (auto simp: counters_advanced_def min_def max_def)

definition bumps :: "generatedEvent list \<Rightarrow> 'g eventGenerator \<Rightarrow> 'g eventGenerator" where
  "bumps xs g = fold bump xs g"

lemma bumps_simps [simp]: "bumps [] g = g" "bumps (x # xs) g = bumps xs (bump x g)"
  by (simp_all add: bumps_def)

lemma bumps_sel [simp]:
  "eg_config (bumps xs g) = eg_config g" "eventSequence (bumps xs g) = eventSequence g"
  by (induction xs arbitrary: g) simp_all

lemma counters_bumps:
  assumes "0 \<le> duplicatesRemaining g"
  shows "counters_advanced xs (duplicatesRemaining g) (eg_summary g) (eg_summary (bumps xs g)) \<and>
    duplicatesRemaining (bumps xs g) = max 0 (duplicatesRemaining g - int (length xs))"
  using assms
proof (induction xs arbitrary: g)
  case Nil
  then show ?case by (simp add: counters_advanced_def)
next
  case (Cons x xs)
  have due: "duplicatesRemaining (bump x g) = max 0 (duplicatesRemaining g - 1)"
    using Cons.prems by (rule bump_due)
  with Cons.IH [of "bump x g"] counters_trans [OF counters_bump [OF Cons.prems Cons.prems, of x], of xs] Cons.prems
  show ?case by auto
qed

lemma nextOrderID_sel:
  assumes "nextOrderID g = (oid, g')"
  shows "eg_config g' = eg_config g" "eventSequence g' = eventSequence g"
    "duplicatesRemaining g' = duplicatesRemaining g" "eg_random g' = eg_random g"
    "counters_advanced xs d (eg_summary g') s' = counters_advanced xs d (eg_summary g) s'"
    "ps_UniqueEventIDs (eg_summary g') = ps_UniqueEventIDs (eg_summary g)"
  using assms by (auto simp: nextOrderID_def Let_def counters_advanced_def)

lemma reserveTimes_sel:
  assumes "reserveTimes n g = (ts, g')"
  shows "eg_config g' = eg_config g" "eventSequence g' = eventSequence g"
    "duplicatesRemaining g' = duplicatesRemaining g" "eg_summary g' = eg_summary g" "eg_random g' = eg_random g"
    "length ts = n"
  using assms by (auto simp: reserveTimes_def)

lemma newEvent_sel:
  assumes "newEvent oid st t g = (ev, g')"
  shows "eg_config g' = eg_config g" "eventSequence g' = eventSequence g + 1"
    "duplicatesRemaining g' = duplicatesRemaining g" "eg_summary g' = eg_summary g"
    "EventID ev = eventIDOf (pc_Seed (eg_config g)) (eventSequence g + 1)" "Status ev = st" "OrderID ev = oid"
    "eg_random g' = eg_random g"
  using assms by (auto simp: newEvent_def Let_def eventIDOf_def)

text \<open>Steps of the generator that no counter sees.\<close>

definition unseen :: "'g eventGenerator \<Rightarrow> 'g eventGenerator \<Rightarrow> bool" where
  "unseen g g1 \<longleftrightarrow> eg_config g1 = eg_config g \<and> eventSequence g1 = eventSequence g \<and>
     duplicatesRemaining g1 = duplicatesRemaining g \<and>
     (\<forall>xs d s'. counters_advanced xs d (eg_summary g1) s' = counters_advanced xs d (eg_summary g) s')"

lemma unseen_steps:
  "nextOrderID g = (oid, g1) \<Longrightarrow> unseen g g1" "reserveTimes n g = (ts, g1) \<Longrightarrow> unseen g g1"
  "drawLifecycle intn k g = (r, g1) \<Longrightarrow> unseen g g1"
  by (auto simp: unseen_def nextOrderID_def reserveTimes_def drawLifecycle_def counters_advanced_def Let_def
      split: prod.splits if_splits)

lemma unseen_trans: "unseen g g1 \<Longrightarrow> unseen g1 g2 \<Longrightarrow> unseen g g2"
  by (simp add: unseen_def)

lemma emits_start:
  assumes "\<And>emit s. act emit (g, s) = act1 emit (g1, s)"
    and "duplicatesRemaining g1 = duplicatesRemaining g" and "emits act1 g1 xs g'"
  shows "emits act g xs g'"
  using assms(3) unfolding emits_def assms(1,2) .

lemma produces_unseen:
  assumes "unseen g g1" and "\<And>emit s. act emit (g, s) = act1 emit (g1, s)" and "produces act1 g1 xs g'"
  shows "produces act g xs g'"
  using assms emits_start [of act g act1 g1 xs g'] by (simp add: unseen_def produces_def advanced_def)

lemma advanced_scenario:
  assumes "0 \<le> duplicatesRemaining g" and "eg_config g4 = eg_config g"
    and "duplicatesRemaining g4 = duplicatesRemaining g"
    and "\<And>xs d s'. counters_advanced xs d (eg_summary g4) s' = counters_advanced xs d (eg_summary g) s'"
    and "eventSequence g4 = eventSequence g + int (length xs)" and "list_all (\<lambda>x. \<not> ge_Duplicate x) xs"
    and "mset (map (EventID \<circ> ge_Event) xs) =
      mset (map (eventIDOf (pc_Seed (eg_config g))) [eventSequence g + 1..eventSequence g4])"
  shows "advanced g xs (bumps xs g4)"
  using counters_bumps [of g4 xs] assms by (simp add: advanced_def)

lemmas flag_simps = normalEvent_def outOfOrderEvent_def

section \<open>The scenarios as scripts\<close>

text \<open>
  The unique events come in blocks, one for each order: the statuses and the marks of a block
  are one of the scripts below.
\<close>

definition orderIDOf :: "int \<Rightarrow> int \<Rightarrow> string" where
  "orderIDOf seed n = ''order-'' @ appendInt seed 0 @ ''-'' @ appendInt n 9"

definition scripts :: "(Status \<times> bool \<times> bool) list list" where
  "scripts =
     [[(StatusPaid, True, False), (StatusCreated, False, False)],
      [(StatusShipped, True, False), (StatusCreated, False, False), (StatusPaid, False, False)],
      [(StatusCreated, False, False), (StatusPaid, False, False), (StatusShipped, False, False),
       (StatusCancelled, False, True)]] @
     map (map (\<lambda>status. (status, False, False))) lifecycles"

definition marks :: "generatedEvent \<Rightarrow> Status \<times> bool \<times> bool" where
  "marks x = (Status (ge_Event x), ge_OutOfOrder x, ge_Invalid x)"

text \<open>What \<open>newEvent\<close> puts into an event besides the status.\<close>

definition made :: "producerConfig \<Rightarrow> gotime \<Rightarrow> string \<Rightarrow> generatedEvent \<Rightarrow> bool" where
  "made c base oid x \<longleftrightarrow> OrderID (ge_Event x) = oid \<and>
     (\<exists>n k. EventID (ge_Event x) = eventIDOf (pc_Seed c) n \<and> int64 k \<and> Timestamp (ge_Event x) = base + k \<and>
        Payload (ge_Event x) = marshalPayload (pc_Seed c) n (Status (ge_Event x)))"

definition block :: "producerConfig \<Rightarrow> gotime \<Rightarrow> string \<Rightarrow> generatedEvent list \<Rightarrow> bool" where
  "block c base oid xs \<longleftrightarrow> map marks xs \<in> set scripts \<and> list_all (made c base oid) xs"

definition scripted :: "'g eventGenerator \<Rightarrow> generatedEvent list \<Rightarrow> 'g eventGenerator \<Rightarrow> bool" where
  "scripted g xs g' \<longleftrightarrow>
     eg_config g' = eg_config g \<and> eg_baseTime g' = eg_baseTime g \<and> orderSequence g \<le> orderSequence g' \<and>
     ps_UniqueOrderIDs (eg_summary g') = ps_UniqueOrderIDs (eg_summary g) + (orderSequence g' - orderSequence g) \<and>
     (\<exists>bs. xs = concat bs \<and> list_all2 (block (eg_config g) (eg_baseTime g))
        (map (orderIDOf (pc_Seed (eg_config g))) [orderSequence g + 1..orderSequence g']) bs)"

lemma scripted_Nil: "scripted g [] g"
  by (auto simp: scripted_def intro: exI [of _ "[]"])

lemma scripted_append:
  assumes "scripted g xs g1" and "scripted g1 ys g2"
  shows "scripted g (xs @ ys) g2"
proof -
  obtain bs bs' where "xs = concat bs" "ys = concat bs'"
      "list_all2 (block (eg_config g) (eg_baseTime g))
        (map (orderIDOf (pc_Seed (eg_config g))) [orderSequence g + 1..orderSequence g1]) bs"
      "list_all2 (block (eg_config g) (eg_baseTime g))
        (map (orderIDOf (pc_Seed (eg_config g))) [orderSequence g1 + 1..orderSequence g2]) bs'"
    using assms by (auto simp: scripted_def)
  with assms upto_append [of "orderSequence g" "orderSequence g1" "orderSequence g2"] show ?thesis
    by (auto simp: scripted_def intro!: exI [of _ "bs @ bs'"] list_all2_appendI)
qed

text \<open>Steps that start no new order.\<close>

definition same_order :: "'g eventGenerator \<Rightarrow> 'g eventGenerator \<Rightarrow> bool" where
  "same_order g g1 \<longleftrightarrow> eg_config g1 = eg_config g \<and> eg_baseTime g1 = eg_baseTime g \<and>
     orderSequence g1 = orderSequence g \<and> ps_UniqueOrderIDs (eg_summary g1) = ps_UniqueOrderIDs (eg_summary g)"

lemma same_order_trans: "same_order g g1 \<Longrightarrow> same_order g1 g2 \<Longrightarrow> same_order g g2"
  by (simp add: same_order_def)

lemma same_order_bumps: "same_order g (bumps xs g)"
  by (induction xs arbitrary: g)
     (auto simp: same_order_def bump_def countUnique_def countDuplicate_def)

lemma same_order_steps:
  "reserveTimes n g = (ts, g1) \<Longrightarrow> same_order g g1" "newEvent oid st t g = (ev, g1) \<Longrightarrow> same_order g g1"
  "drawLifecycle intn k g = (r, g1) \<Longrightarrow> same_order g g1"
  by (auto simp: same_order_def reserveTimes_def newEvent_def drawLifecycle_def Let_def split: prod.splits if_splits)

definition in_reach :: "gotime \<Rightarrow> gotime \<Rightarrow> bool" where
  "in_reach base t \<longleftrightarrow> (\<exists>k. int64 k \<and> t = base + k)"

lemma reserveTimes_reach:
  assumes "reserveTimes n g = (ts, g1)"
  shows "\<forall>t \<in> set ts. in_reach (eg_baseTime g) t"
  using assms wrap64_range by (auto simp: reserveTimes_def in_reach_def)

lemma made_newEvent:
  assumes "newEvent oid st t g = (ev, g1)" and "in_reach base t" and "ge_Event x = ev"
  shows "made (eg_config g) base oid x"
proof -
  have "Payload ev = marshalPayload (pc_Seed (eg_config g)) (eventSequence g + 1) (Status ev)" "Timestamp ev = t"
    using assms(1) by (auto simp: newEvent_def Let_def)
  with newEvent_sel(5,7) [OF assms(1)] assms(2,3) show ?thesis
    unfolding made_def in_reach_def by blast
qed

lemma scripted_block:
  assumes "nextOrderID g = (oid, g1)" and "same_order g1 g'" and "block (eg_config g) (eg_baseTime g) oid xs"
  shows "scripted g xs g'"
proof -
  have "oid = orderIDOf (pc_Seed (eg_config g)) (orderSequence g + 1)" "orderSequence g1 = orderSequence g + 1"
      "eg_config g1 = eg_config g" "eg_baseTime g1 = eg_baseTime g"
      "ps_UniqueOrderIDs (eg_summary g1) = ps_UniqueOrderIDs (eg_summary g) + 1"
    using assms(1) by (auto simp: nextOrderID_def orderIDOf_def Let_def)
  with assms(2,3) show ?thesis
    by (auto simp: scripted_def same_order_def intro!: exI [of _ "[xs]"])
qed

lemma upto_2: "[n + 1..2 + n] = [n + 1, (2 :: int) + n]"
  by (simp add: upto_rec1 add.commute)

lemma upto_3: "[n + 1..3 + n] = [n + 1, 2 + n, (3 :: int) + n]"
  by (simp add: upto_rec1 add.commute)

lemma produces_pair:
  assumes "0 \<le> duplicatesRemaining g"
  shows "\<exists>xs g'. produces outOfOrderPair g xs g' \<and> scripted g xs g' \<and> length xs = 2 \<and>
    length (filter ge_OutOfOrder xs) = 1 \<and> length (filter ge_Invalid xs) = 0"
proof -
  obtain oid g1 where g1: "nextOrderID g = (oid, g1)" by (meson surj_pair)
  obtain ts g2 where g2: "reserveTimes 2 g1 = (ts, g2)" by (meson surj_pair)
  obtain created g3 where g3: "newEvent oid StatusCreated (ts ! 0) g2 = (created, g3)" by (meson surj_pair)
  obtain paid g4 where g4: "newEvent oid StatusPaid (ts ! Suc 0) g3 = (paid, g4)" by (meson surj_pair)
  have u: "unseen g g2" using unseen_steps(1) [OF g1] unseen_steps(2) [OF g2] by (rule unseen_trans)
  note sel = newEvent_sel [OF g3] newEvent_sel [OF g4]
  let ?xs = "[outOfOrderEvent paid, normalEvent created]"
  have due: "duplicatesRemaining g4 = duplicatesRemaining g" using u sel by (simp add: unseen_def)
  have "emits (\<lambda>emit. andThen (emitUnique emit (outOfOrderEvent paid)) (emitUnique emit (normalEvent created)))
      g4 ?xs (bumps ?xs g4)"
    using assms due by (auto intro!: emits_emitUnique_then emits_emitUnique simp: bump_due)
  then have "emits outOfOrderPair g ?xs (bumps ?xs g4)"
    by (rule emits_start [OF _ due, rotated]) (simp add: outOfOrderPair_def g1 g2 g3 g4)
  moreover have "advanced g ?xs (bumps ?xs g4)"
    using assms u sel by (intro advanced_scenario) (auto simp: unseen_def flag_simps upto_2)
  moreover have "scripted g ?xs (bumps ?xs g4)"
  proof (rule scripted_block [OF g1])
    note same = same_order_steps(1) [OF g2] same_order_steps(2) [OF g3] same_order_steps(2) [OF g4]
    show "same_order g1 (bumps ?xs g4)" using same same_order_bumps by (blast intro: same_order_trans)
    have reach: "in_reach (eg_baseTime g) (ts ! 0)" "in_reach (eg_baseTime g) (ts ! Suc 0)"
      using reserveTimes_reach [OF g2] reserveTimes_sel(6) [OF g2] g1 by (auto simp: nextOrderID_def Let_def)
    show "block (eg_config g) (eg_baseTime g) oid ?xs"
      using made_newEvent [OF g3 reach(1), of "normalEvent created"] made_newEvent [OF g4 reach(2), of "outOfOrderEvent paid"]
        sel u by (simp add: block_def scripts_def marks_def flag_simps unseen_def)
  qed
  ultimately show ?thesis
    by (intro exI [of _ ?xs] exI [of _ "bumps ?xs g4"]) (simp add: produces_def flag_simps)
qed

lemma produces_triple:
  assumes "0 \<le> duplicatesRemaining g"
  shows "\<exists>xs g'. produces outOfOrderTriple g xs g' \<and> scripted g xs g' \<and> length xs = 3 \<and>
    length (filter ge_OutOfOrder xs) = 1 \<and> length (filter ge_Invalid xs) = 0"
proof -
  obtain oid g1 where g1: "nextOrderID g = (oid, g1)" by (meson surj_pair)
  obtain ts g2 where g2: "reserveTimes 3 g1 = (ts, g2)" by (meson surj_pair)
  obtain created g3 where g3: "newEvent oid StatusCreated (ts ! 0) g2 = (created, g3)" by (meson surj_pair)
  obtain paid g4 where g4: "newEvent oid StatusPaid (ts ! Suc 0) g3 = (paid, g4)" by (meson surj_pair)
  obtain shipped g5 where g5: "newEvent oid StatusShipped (ts ! 2) g4 = (shipped, g5)" by (meson surj_pair)
  have u: "unseen g g2" using unseen_steps(1) [OF g1] unseen_steps(2) [OF g2] by (rule unseen_trans)
  note sel = newEvent_sel [OF g3] newEvent_sel [OF g4] newEvent_sel [OF g5]
  let ?xs = "[outOfOrderEvent shipped, normalEvent created, normalEvent paid]"
  have due: "duplicatesRemaining g5 = duplicatesRemaining g" using u sel by (simp add: unseen_def)
  have "emits (\<lambda>emit. andThen (emitUnique emit (outOfOrderEvent shipped))
      (andThen (emitUnique emit (normalEvent created)) (emitUnique emit (normalEvent paid))))
      g5 ?xs (bumps ?xs g5)"
    using assms due by (auto intro!: emits_emitUnique_then emits_emitUnique simp: bump_due)
  then have "emits outOfOrderTriple g ?xs (bumps ?xs g5)"
    by (rule emits_start [OF _ due, rotated]) (simp add: outOfOrderTriple_def g1 g2 g3 g4 g5)
  moreover have "advanced g ?xs (bumps ?xs g5)"
    using assms u sel by (intro advanced_scenario) (auto simp: unseen_def flag_simps upto_3)
  moreover have "scripted g ?xs (bumps ?xs g5)"
  proof (rule scripted_block [OF g1])
    note same = same_order_steps(1) [OF g2] same_order_steps(2) [OF g3] same_order_steps(2) [OF g4]
      same_order_steps(2) [OF g5]
    show "same_order g1 (bumps ?xs g5)" using same same_order_bumps by (blast intro: same_order_trans)
    have reach: "in_reach (eg_baseTime g) (ts ! 0)" "in_reach (eg_baseTime g) (ts ! Suc 0)"
        "in_reach (eg_baseTime g) (ts ! 2)"
      using reserveTimes_reach [OF g2] reserveTimes_sel(6) [OF g2] g1 by (auto simp: nextOrderID_def Let_def)
    show "block (eg_config g) (eg_baseTime g) oid ?xs"
      using made_newEvent [OF g3 reach(1), of "normalEvent created"] made_newEvent [OF g4 reach(2), of "normalEvent paid"]
        made_newEvent [OF g5 reach(3), of "outOfOrderEvent shipped"] sel u
      by (simp add: block_def scripts_def marks_def flag_simps unseen_def)
  qed
  ultimately show ?thesis
    by (intro exI [of _ ?xs] exI [of _ "bumps ?xs g5"]) (simp add: produces_def flag_simps)
qed

lemma produces_done: "0 \<le> duplicatesRemaining g \<Longrightarrow> produces (\<lambda>emit st. (st, None)) g [] g"
  by (simp add: produces_def emits_def advanced_def counters_advanced_def)

lemma produces_due: "produces act g xs g' \<Longrightarrow> 0 \<le> duplicatesRemaining g'"
  by (simp add: produces_def advanced_def)

lemma produces_outOfOrderFrom:
  assumes "0 \<le> duplicatesRemaining g"
  shows "\<exists>xs g'. produces (\<lambda>emit :: ('s, 'e) emitter. outOfOrderFrom emit index left) g xs g' \<and>
    length xs + index div 2 * 5 + index mod 2 * 2 = (index + left) div 2 * 5 + (index + left) mod 2 * 2 \<and>
    length (filter ge_OutOfOrder xs) = left \<and> length (filter ge_Invalid xs) = 0 \<and> scripted g xs g'"
  using assms
proof (induction left arbitrary: index g)
  case 0
  then show ?case
    using produces_done by (intro exI [of _ "[]"] exI [of _ g]) (simp add: produces_def emits_def scripted_Nil)
next
  case (Suc left)
  let ?act = "\<lambda>emit :: ('s, 'e) emitter. if index mod 2 = 0 then outOfOrderPair emit else outOfOrderTriple emit"
  have "\<exists>xs g'. produces ?act g xs g' \<and> length xs = 2 + index mod 2 \<and>
      length (filter ge_OutOfOrder xs) = 1 \<and> length (filter ge_Invalid xs) = 0 \<and> scripted g xs g'"
    using produces_pair [OF Suc.prems] produces_triple [OF Suc.prems] by (cases "index mod 2 = 0") auto
  then obtain xs g1 where one: "produces ?act g xs g1" "length xs = 2 + index mod 2"
      "length (filter ge_OutOfOrder xs) = 1" "length (filter ge_Invalid xs) = 0" "scripted g xs g1"
    by blast
  obtain ys g2 where rest: "produces (\<lambda>emit :: ('s, 'e) emitter. outOfOrderFrom emit (Suc index) left) g1 ys g2"
      "length ys + Suc index div 2 * 5 + Suc index mod 2 * 2 =
        (Suc index + left) div 2 * 5 + (Suc index + left) mod 2 * 2"
      "length (filter ge_OutOfOrder ys) = left" "length (filter ge_Invalid ys) = 0" "scripted g1 ys g2"
    using Suc.IH [OF produces_due [OF one(1)], of "Suc index"] by blast
  have "produces (\<lambda>emit :: ('s, 'e) emitter. outOfOrderFrom emit index (Suc left)) g (xs @ ys) g2"
    using produces_andThen [OF one(1) rest(1)] by (simp only: outOfOrderFrom.simps [abs_def])
  moreover have "length (xs @ ys) + index div 2 * 5 + index mod 2 * 2 =
      (index + Suc left) div 2 * 5 + (index + Suc left) mod 2 * 2"
    using one(2) rest(2) by (cases "even index") (auto elim!: evenE oddE)
  ultimately show ?case
    using one(3,4) rest(3,4) scripted_append [OF one(5) rest(5)]
    by (intro exI [of _ "xs @ ys"] exI [of _ g2]) (simp del: outOfOrderFrom.simps)
qed

lemma produces_emitStatuses:
  assumes "0 \<le> duplicatesRemaining g" and "\<forall>p \<in> set pairs. in_reach (eg_baseTime g) (snd p)"
  shows "\<exists>xs g'. produces (\<lambda>emit :: ('s, 'e) emitter. emitStatuses emit invalid oid pairs) g xs g' \<and>
    map marks xs = map (\<lambda>p. (fst p, False, invalid (fst p))) pairs \<and>
    list_all (made (eg_config g) (eg_baseTime g) oid) xs \<and> same_order g g' \<and> eg_random g' = eg_random g"
  using assms
proof (induction pairs arbitrary: g)
  case Nil
  then show ?case
    using produces_done by (intro exI [of _ "[]"] exI [of _ g]) (simp add: produces_def emits_def same_order_def)
next
  case (Cons pair pairs)
  obtain status time where pair: "pair = (status, time)" by (cases pair)
  obtain ev g1 where g1: "newEvent oid status time g = (ev, g1)" by (meson surj_pair)
  note sel = newEvent_sel [OF g1]
  let ?x = "(normalEvent ev)\<lparr>ge_Invalid := invalid status\<rparr>"
  let ?one = "\<lambda>(emit :: ('s, 'e) emitter) (g, s). case newEvent oid status time g of (ev, g1) \<Rightarrow>
    emitUnique emit ((normalEvent ev)\<lparr>ge_Invalid := invalid status\<rparr>) (g1, s)"
  have "emits (\<lambda>emit :: ('s, 'e) emitter. emitUnique emit ?x) g1 [?x] (bumps [?x] g1)"
    using emits_emitUnique [of g1 ?x] Cons.prems(1) sel(3) by simp
  then have "emits ?one g [?x] (bumps [?x] g1)"
    by (rule emits_start [OF _ sel(3), rotated]) (simp add: g1)
  moreover have "advanced g [?x] (bumps [?x] g1)"
    using Cons.prems(1) sel by (intro advanced_scenario) (auto simp: flag_simps)
  ultimately have one: "produces ?one g [?x] (bumps [?x] g1)" by (simp add: produces_def)
  have same: "same_order g (bumps [?x] g1)"
    using same_order_steps(2) [OF g1] same_order_bumps by (rule same_order_trans)
  then have base: "eg_config (bumps [?x] g1) = eg_config g" "eg_baseTime (bumps [?x] g1) = eg_baseTime g"
    by (simp_all only: same_order_def)
  have "\<forall>p \<in> set pairs. in_reach (eg_baseTime (bumps [?x] g1)) (snd p)"
    using Cons.prems(2) unfolding base by simp
  from Cons.IH [OF produces_due [OF one] this]
  obtain ys g2 where rest: "produces (\<lambda>emit :: ('s, 'e) emitter. emitStatuses emit invalid oid pairs) (bumps [?x] g1) ys g2"
      "map marks ys = map (\<lambda>p. (fst p, False, invalid (fst p))) pairs"
      "list_all (made (eg_config g) (eg_baseTime g) oid) ys" "same_order (bumps [?x] g1) g2"
      "eg_random g2 = eg_random (bumps [?x] g1)"
    unfolding base by blast
  have "produces (\<lambda>emit :: ('s, 'e) emitter. emitStatuses emit invalid oid (pair # pairs)) g ([?x] @ ys) g2"
    by (rule produces_unseen [OF _ _ produces_andThen [OF one rest(1)]])
       (simp_all add: unseen_def pair andThen_def g1)
  moreover have "made (eg_config g) (eg_baseTime g) oid ?x"
    using made_newEvent [OF g1, of "eg_baseTime g" ?x] Cons.prems(2) by (simp add: pair flag_simps)
  moreover have "marks ?x = (status, False, invalid status)"
    using sel(6) by (simp add: marks_def flag_simps)
  moreover have "eg_random g2 = eg_random g" using rest(5) sel(8) by simp
  ultimately show ?case
    using rest(2,3) same_order_trans [OF same rest(4)]
    by (intro exI [of _ "[?x] @ ys"] exI [of _ g2]) (simp add: pair del: emitStatuses.simps)
qed

text \<open>The counts of a list of events by their marks.\<close>

lemma marks_counts:
  assumes "map marks xs = ms"
  shows "length xs = length ms" and "length (filter ge_OutOfOrder xs) = length (filter (\<lambda>(_, o', _). o') ms)"
    and "length (filter ge_Invalid xs) = length (filter (\<lambda>(_, _, i). i) ms)"
  unfolding assms [symmetric] by (simp_all add: filter_map comp_def marks_def)

lemma produces_invalidFrom:
  assumes "0 \<le> duplicatesRemaining g"
  shows "\<exists>xs g'. produces (\<lambda>emit :: ('s, 'e) emitter. invalidFrom emit left) g xs g' \<and> length xs = 4 * left \<and>
    length (filter ge_OutOfOrder xs) = 0 \<and> length (filter ge_Invalid xs) = left \<and> scripted g xs g'"
  using assms
proof (induction left arbitrary: g)
  case 0
  then show ?case
    using produces_done by (intro exI [of _ "[]"] exI [of _ g]) (simp add: produces_def emits_def scripted_Nil)
next
  case (Suc left)
  obtain oid g1 where g1: "nextOrderID g = (oid, g1)" by (meson surj_pair)
  obtain ts g2 where g2: "reserveTimes 4 g1 = (ts, g2)" by (meson surj_pair)
  have u: "unseen g g2" using unseen_steps(1) [OF g1] unseen_steps(2) [OF g2] by (rule unseen_trans)
  then have due: "0 \<le> duplicatesRemaining g2" using Suc.prems by (simp add: unseen_def)
  let ?inv = "\<lambda>status. status = StatusCancelled" and ?pairs = "zip invalidStatuses ts"
  have "length ts = length invalidStatuses"
    using reserveTimes_sel(6) [OF g2] by (simp add: invalidStatuses_def)
  then have "map fst ?pairs = invalidStatuses" by simp
  then have script: "map (\<lambda>p. (fst p, False, ?inv (fst p))) ?pairs = scripts ! 2"
    using list.map_comp [of "\<lambda>st. (st, False, ?inv st)" fst ?pairs]
    by (simp add: comp_def invalidStatuses_def scripts_def status_simps)
  have "\<forall>p \<in> set ?pairs. in_reach (eg_baseTime g2) (snd p)"
    using reserveTimes_reach [OF g2] same_order_steps(1) [OF g2] by (auto simp: same_order_def dest: set_zip_rightD)
  from produces_emitStatuses [OF due this, of ?inv oid]
  obtain xs g3 where one: "produces (\<lambda>emit :: ('s, 'e) emitter. emitStatuses emit ?inv oid ?pairs) g2 xs g3"
      "map marks xs = scripts ! 2" "list_all (made (eg_config g2) (eg_baseTime g2) oid) xs" "same_order g2 g3"
    unfolding script by blast
  obtain ys g4 where rest: "produces (\<lambda>emit :: ('s, 'e) emitter. invalidFrom emit left) g3 ys g4"
      "length ys = 4 * left" "length (filter ge_OutOfOrder ys) = 0" "length (filter ge_Invalid ys) = left"
      "scripted g3 ys g4"
    using Suc.IH [OF produces_due [OF one(1)]] by blast
  have "scripted g xs g3"
    using one(2-4) same_order_steps(1) [OF g2] g1
    by (intro scripted_block [OF g1])
       (auto simp: block_def same_order_def nextOrderID_def Let_def scripts_def)
  then have "scripted g (xs @ ys) g4" using rest(5) by (rule scripted_append)
  moreover have "produces (\<lambda>emit :: ('s, 'e) emitter. invalidFrom emit (Suc left)) g (xs @ ys) g4"
    by (rule produces_unseen [OF u _ produces_andThen [OF one(1) rest(1)]]) (simp add: g1 g2)
  ultimately show ?case
    using marks_counts [OF one(2)] rest(2-4)
    by (intro exI [of _ "xs @ ys"] exI [of _ g4]) (simp add: scripts_def del: invalidFrom.simps)
qed

text \<open>A lifecycle that is cut short is another lifecycle.\<close>

lemma lifecycles_take:
  assumes "steps \<in> set lifecycles" and "0 < k"
  shows "take k steps \<in> set lifecycles"
  using assms by (cases k; cases "k - 1"; cases "k - 2") (auto simp: lifecycles_def)

lemma drawLifecycle_lifecycle:
  assumes "drawLifecycle intn k g = (Some steps, g')" and "0 < k"
  shows "steps \<in> set lifecycles"
  using assms by (auto simp: drawLifecycle_def Let_def lifecycles_take split: prod.splits if_splits)

text \<open>The random source is used within its contract: \<open>Intn(n)\<close> is below \<open>n\<close>.\<close>

locale random_source =
  fixes intn :: "nat \<Rightarrow> 'g \<Rightarrow> nat \<times> 'g"
  assumes intn_range: "0 < n \<Longrightarrow> fst (intn n r) < n"
begin

lemma draw_succeeds:
  assumes "0 < k"
  obtains st g' where "drawLifecycle intn k g = (Some st, g')" and "st \<noteq> []" and "int (length st) \<le> k"
proof -
  obtain i r where i: "intn (length lifecycles) (eg_random g) = (i, r)" by (meson surj_pair)
  moreover have "i < length lifecycles"
    using intn_range [of "length lifecycles" "eg_random g"] i by (simp add: lifecycles_def)
  ultimately obtain st g' where "drawLifecycle intn k g = (Some st, g')"
    by (simp add: drawLifecycle_def)
  with drawLifecycle_nonempty [OF this assms] that show thesis by blast
qed

lemma produces_generateNormal:
  assumes "0 \<le> duplicatesRemaining g"
  shows "\<exists>xs g'. produces (\<lambda>emit :: ('s, 'e generate_error) emitter. generateNormal intn emit k) g xs g' \<and>
    length xs = nat k \<and> length (filter ge_OutOfOrder xs) = 0 \<and> length (filter ge_Invalid xs) = 0 \<and>
    scripted g xs g'"
  using assms
proof (induction "nat k" arbitrary: k g rule: less_induct)
  case less
  show ?case
  proof (cases "0 < k")
    case False
    with less.prems produces_done [of g] show ?thesis
      by (intro exI [of _ "[]"] exI [of _ g]) (simp add: generateNormal.simps produces_def emits_def scripted_Nil)
  next
    case True
    obtain oid g1 where g1: "nextOrderID g = (oid, g1)" by (meson surj_pair)
    obtain st g2 where g2: "drawLifecycle intn k g1 = (Some st, g2)" "st \<noteq> []" "int (length st) \<le> k"
      by (rule draw_succeeds [OF True])
    obtain ts g3 where g3: "reserveTimes (length st) g2 = (ts, g3)" by (meson surj_pair)
    have u: "unseen g g3"
      using unseen_steps(1) [OF g1] unseen_steps(3) [OF g2(1)] unseen_steps(2) [OF g3]
      by (blast intro: unseen_trans)
    then have due: "0 \<le> duplicatesRemaining g3" using less.prems by (simp add: unseen_def)
    have "map fst (zip st ts) = st" using reserveTimes_sel(6) [OF g3] by simp
    then have script: "map (\<lambda>p. (fst p, False, False)) (zip st ts) = map (\<lambda>status. (status, False, False)) st"
      using list.map_comp [of "\<lambda>status. (status, False, False)" fst "zip st ts"] by (simp add: comp_def)
    have "\<forall>p \<in> set (zip st ts). in_reach (eg_baseTime g3) (snd p)"
      using reserveTimes_reach [OF g3] same_order_steps(1) [OF g3]
      by (auto simp: same_order_def dest: set_zip_rightD)
    from produces_emitStatuses [OF due this, of "\<lambda>status. False" oid]
    obtain xs g4 where one: "produces (\<lambda>emit :: ('s, 'e generate_error) emitter.
          emitStatuses emit (\<lambda>status. False) oid (zip st ts)) g3 xs g4"
        "map marks xs = map (\<lambda>status. (status, False, False)) st"
        "list_all (made (eg_config g3) (eg_baseTime g3) oid) xs" "same_order g3 g4"
      unfolding script by blast
    have counts: "length xs = length st" "length (filter ge_OutOfOrder xs) = 0" "length (filter ge_Invalid xs) = 0"
      using marks_counts [OF one(2)] by (simp_all add: filter_map comp_def)
    have "map marks xs \<in> set scripts"
      using one(2) drawLifecycle_lifecycle [OF g2(1) True] by (simp add: scripts_def)
    then have block: "scripted g xs g4"
      using one(3,4) same_order_steps(1) [OF g3] same_order_steps(3) [OF g2(1)] g1
      by (intro scripted_block [OF g1]) (auto simp: block_def same_order_def nextOrderID_def Let_def)
    have "nat (k - int (length st)) < nat k" using True g2(2,3) by (cases st) auto
    from less.hyps [OF this produces_due [OF one(1)]]
    obtain ys g5 where rest: "produces (\<lambda>emit :: ('s, 'e generate_error) emitter.
          generateNormal intn emit (k - int (length st))) g4 ys g5"
        "length ys = nat (k - int (length st))" "length (filter ge_OutOfOrder ys) = 0"
        "length (filter ge_Invalid ys) = 0" "scripted g4 ys g5"
      by blast
    have "produces (\<lambda>emit :: ('s, 'e generate_error) emitter. generateNormal intn emit k) g (xs @ ys) g5"
      by (rule produces_unseen [OF u _ produces_andThen [OF one(1) rest(1)]])
         (simp add: generateNormal.simps [of intn _ k] True g1 g2(1) g3)
    then show ?thesis
      using counts rest(2-4) g2(3) scripted_append [OF block rest(5)]
      by (intro exI [of _ "xs @ ys"] exI [of _ g5]) simp
  qed
qed

end

end
