(* ===== verification/Producer_Properties.thy ===== *)
theory Producer_Properties
  imports Producer_Actions
begin

text \<open>
  The generator delivers what its configuration asks for: the three phases together, the final
  check, and the configurations for which it cannot succeed.
\<close>

section \<open>The whole run\<close>

lemma ratioCount_bounds:
  assumes "0 \<le> n" and "n < 2 ^ 53" and "\<not> badRatio x"
  shows "0 \<le> ratioCount n x" and "ratioCount n x \<le> n"
proof -
  obtain r where r: "x = Finite r" "0 \<le> r" "r \<le> 1"
    using assms(3) by (cases x) (auto simp: badRatio_def isNaN_def isInf_def not_less)
  have "of_int n * r \<le> of_int n * 1" using assms(1) r(3) by (intro mult_left_mono) simp_all
  then obtain y where y: "round64 (of_int n * r) = Finite y" "0 \<le> y" "y \<le> of_int n"
    using round64_bounds [of 0 "of_int n * r" n] assms(1,2) r(2) by auto
  have "\<lfloor>y\<rfloor> \<le> n" using y(3) by linarith
  moreover have "int64 \<lfloor>y\<rfloor>"
    using y(2) assms(2) calculation by (simp add: int64_def) linarith
  moreover have "ratioCount n x = \<lfloor>y\<rfloor>"
    using floatOfInt_exact [OF assms(1,2)] r(1) y(1,2) calculation(2) by (simp add: ratioCount_def)
  ultimately show "0 \<le> ratioCount n x" "ratioCount n x \<le> n" using y(2) by simp_all
qed

text \<open>The three counts of a configuration.\<close>

abbreviation duplicateCount :: "producerConfig \<Rightarrow> int" where
  "duplicateCount c \<equiv> ratioCount (pc_Total c) (pc_DuplicateRatio c)"

abbreviation outOfOrderCount :: "producerConfig \<Rightarrow> int" where
  "outOfOrderCount c \<equiv> ratioCount (pc_Total c) (pc_OutOfOrderRatio c)"

abbreviation invalidCount :: "producerConfig \<Rightarrow> int" where
  "invalidCount c \<equiv> ratioCount (pc_Total c) (pc_InvalidRatio c)"

lemma scenario_size:
  assumes "0 \<le> n" and "n < 2 ^ 53"
  shows "outOfOrderScenarioSize n = n div 2 * 5 + n mod 2 * 2"
proof -
  let ?a = "(n + 1) div 2" and ?b = "n div 2"
  have ab: "0 \<le> ?a" "?a \<le> n + 1" "0 \<le> ?b" "?b \<le> n" using assms(1) by linarith+
  have "int64 (n + 1)" "int64 (2 * ?a)" "int64 (3 * ?b)" "int64 (2 * ?a + 3 * ?b)"
    unfolding int64_def using ab assms by simp_all
  then have "outOfOrderScenarioSize n = 2 * ?a + 3 * ?b"
    using assms(1) by (simp add: outOfOrderScenarioSize_def Let_def)
  also have "\<dots> = n div 2 * 5 + n mod 2 * 2" by presburger
  finally show ?thesis .
qed

lemma valid_config:
  assumes "validateConfig c = None" and "pc_Total c < 2 ^ 53"
  shows "0 < pc_Total c" and "0 \<le> duplicateCount c" and "0 \<le> outOfOrderCount c" and "0 \<le> invalidCount c"
    and "wrap64 (pc_Total c - duplicateCount c) = pc_Total c - duplicateCount c"
    and "outOfOrderCount c div 2 * 5 + outOfOrderCount c mod 2 * 2 + 4 * invalidCount c
      \<le> pc_Total c - duplicateCount c"
proof -
  let ?n = "pc_Total c" and ?d = "duplicateCount c" and ?o = "outOfOrderCount c" and ?i = "invalidCount c"
  from assms(1) show pos: "0 < ?n" by (auto simp: validateConfig_def split: if_splits)
  from assms(1) have ratios: "\<not> badRatio (pc_DuplicateRatio c)" "\<not> badRatio (pc_OutOfOrderRatio c)"
      "\<not> badRatio (pc_InvalidRatio c)"
    by (auto simp: validateConfig_def split: if_splits)
  note d = ratioCount_bounds [OF less_imp_le [OF pos] assms(2) ratios(1)]
    and o = ratioCount_bounds [OF less_imp_le [OF pos] assms(2) ratios(2)]
    and i = ratioCount_bounds [OF less_imp_le [OF pos] assms(2) ratios(3)]
  from d(1) o(1) i(1) show "0 \<le> ?d" "0 \<le> ?o" "0 \<le> ?i" .
  have "int64 (?n - ?d)" using d pos assms(2) by (simp add: int64_def)
  then show uniq: "wrap64 (?n - ?d) = ?n - ?d" by simp
  have o53: "?o < 2 ^ 53" using o(2) assms(2) by simp
  have "?o div 2 * 5 + ?o mod 2 * 2 \<le> 5 * ?o" using o(1) by presburger
  then have "int64 (4 * ?i)" "int64 (?o div 2 * 5 + ?o mod 2 * 2 + 4 * ?i)"
    using i o o53 assms(2) by (simp_all add: int64_def)
  then show "?o div 2 * 5 + ?o mod 2 * 2 + 4 * ?i \<le> ?n - ?d"
    using assms(1) scenario_size [OF o(1) o53] uniq
    by (simp add: validateConfig_def Let_def split: if_splits)
qed

lemma emitAll_wrapEmit:
  "emitAll (wrapEmit emit) xs s = map_prod id (map_option EmitFailed) (emitAll emit xs s)"
  by (induction xs arbitrary: s) (auto simp: wrapEmit_def split: prod.split option.split)

definition allPhases ::
  "(nat \<Rightarrow> 'g \<Rightarrow> nat \<times> 'g) \<Rightarrow> producerConfig \<Rightarrow> ('s, 'e generate_error) emitter \<Rightarrow> ('g, 's, 'e generate_error) generating" where
  "allPhases intn c emit =
     andThen (generateOutOfOrder emit (outOfOrderCount c))
       (andThen (generateInvalid emit (invalidCount c))
         (\<lambda>(g, s). generateNormal intn emit
            (wrap64 (wrap64 (pc_Total c - duplicateCount c) - ps_UniqueEventIDs (eg_summary g))) (g, s)))"

lemma generate_phases:
  "generate intn source c emit s =
     (case validateConfig c of
        Some err \<Rightarrow> (s, zeroSummary, Some (ConfigInvalid err))
      | None \<Rightarrow>
          (case allPhases intn c (wrapEmit emit) (startGenerator c source, s) of
             ((g, s'), Some err) \<Rightarrow> (s', eg_summary g, Some err)
           | ((g, s'), None) \<Rightarrow>
               if ps_TotalPublished (eg_summary g) \<noteq> pc_Total c
               then (s', eg_summary g, Some (GeneratedCount (ps_TotalPublished (eg_summary g)) (pc_Total c)))
               else (s', eg_summary g, None)))"
  unfolding generate_def allPhases_def Let_def ..

context random_source
begin

lemma allPhases_produces:
  assumes "validateConfig c = None" and "pc_Total c < 2 ^ 53"
  shows "\<exists>xs g'. produces (\<lambda>emit :: ('s, 'e generate_error) emitter. allPhases intn c emit) (startGenerator c source) xs g' \<and>
    int (length xs) = pc_Total c - duplicateCount c \<and>
    int (length (filter ge_OutOfOrder xs)) = outOfOrderCount c \<and>
    int (length (filter ge_Invalid xs)) = invalidCount c \<and> scripted (startGenerator c source) xs g'"
proof -
  note valid = valid_config [OF assms]
  let ?g = "startGenerator c source"
  have due: "0 \<le> duplicatesRemaining ?g" using valid(2) by (simp add: startGenerator_def)
  obtain xs g1 where one: "produces (\<lambda>emit :: ('s, 'e generate_error) emitter. generateOutOfOrder emit (outOfOrderCount c)) ?g xs g1"
      "length xs = nat (outOfOrderCount c) div 2 * 5 + nat (outOfOrderCount c) mod 2 * 2"
      "length (filter ge_OutOfOrder xs) = nat (outOfOrderCount c)" "length (filter ge_Invalid xs) = 0"
      "scripted ?g xs g1"
    using produces_outOfOrderFrom [OF due, of 0 "nat (outOfOrderCount c)"]
    by (auto simp: generateOutOfOrder_def)
  obtain ys g2 where two: "produces (\<lambda>emit :: ('s, 'e generate_error) emitter. generateInvalid emit (invalidCount c)) g1 ys g2"
      "length ys = 4 * nat (invalidCount c)" "length (filter ge_OutOfOrder ys) = 0"
      "length (filter ge_Invalid ys) = nat (invalidCount c)" "scripted g1 ys g2"
    using produces_invalidFrom [OF produces_due [OF one(1)], of "nat (invalidCount c)"]
    by (auto simp: generateInvalid_def)
  have "ps_UniqueEventIDs (eg_summary ?g) = 0" by (simp add: startGenerator_def zeroSummary_def)
  then have uniq: "ps_UniqueEventIDs (eg_summary g2) = int (length xs) + int (length ys)"
    using one(1) two(1) by (simp add: produces_def advanced_def counters_advanced_def)
  have sum: "int (length xs) + int (length ys) =
      outOfOrderCount c div 2 * 5 + outOfOrderCount c mod 2 * 2 + 4 * invalidCount c"
    using one(2) two(2) valid(3,4) by (simp add: zdiv_int zmod_int)
  let ?k = "pc_Total c - duplicateCount c - (int (length xs) + int (length ys))"
  have k: "0 \<le> ?k" "int64 ?k"
    using valid(2,6) assms(2) sum by (simp_all add: int64_def)
  obtain zs g3 where three: "produces (\<lambda>emit :: ('s, 'e generate_error) emitter. generateNormal intn emit ?k) g2 zs g3"
      "length zs = nat ?k" "length (filter ge_OutOfOrder zs) = 0" "length (filter ge_Invalid zs) = 0"
      "scripted g2 zs g3"
    using produces_generateNormal [OF produces_due [OF two(1)], of ?k] by blast
  have "produces (\<lambda>(emit :: ('s, 'e generate_error) emitter) (g, s). generateNormal intn emit
      (wrap64 (wrap64 (pc_Total c - duplicateCount c) - ps_UniqueEventIDs (eg_summary g))) (g, s)) g2 zs g3"
    by (rule produces_unseen [OF _ _ three(1)]) (simp_all add: unseen_def uniq valid(5) k(2))
  from produces_andThen [OF one(1) produces_andThen [OF two(1) this]]
  have "produces (\<lambda>emit :: ('s, 'e generate_error) emitter. allPhases intn c emit) ?g (xs @ ys @ zs) g3"
    unfolding allPhases_def .
  then show ?thesis
    using one(2-4) two(2-4) three(2-4) k(1) valid(3,4) scripted_append [OF one(5) scripted_append [OF two(5) three(5)]]
    by (intro exI [of _ "xs @ ys @ zs"] exI [of _ g3]) simp
qed

end

text \<open>Ids are injective in the sequence number.\<close>

lemma digits_val_leading: "digits_val (replicate k CHR ''0'' @ ds) = digits_val ds"
  by (induction k) (simp_all add: digits_val_def digit_val_def)

lemma digits_val_appendInt: "0 \<le> n \<Longrightarrow> digits_val (appendInt n w) = n"
  by (simp add: appendInt_def Let_def digits_val_leading decimal_digits)

lemma eventIDOf_inj: "0 \<le> m \<Longrightarrow> 0 \<le> n \<Longrightarrow> eventIDOf seed m = eventIDOf seed n \<longleftrightarrow> m = n"
  by (auto simp: eventIDOf_def dest: arg_cong [of _ _ digits_val] simp: digits_val_appendInt)

lemma produces_distinct:
  assumes "produces act g xs g'" and "0 \<le> eventSequence g"
  shows "distinct (map (EventID \<circ> ge_Event) xs)"
proof -
  have "distinct (map (eventIDOf (pc_Seed (eg_config g))) [eventSequence g + 1..eventSequence g'])"
    using assms(2) by (auto simp: distinct_map inj_on_def eventIDOf_inj)
  then show ?thesis
    using assms(1) mset_eq_imp_distinct_iff unfolding produces_def advanced_def by blast
qed

lemma withDuplicates_flags:
  "filter ge_OutOfOrder (withDuplicates d xs) = filter ge_OutOfOrder xs"
  "filter ge_Invalid (withDuplicates d xs) = filter ge_Invalid xs"
  by (induction d xs rule: withDuplicates.induct) (simp_all add: duplicateOf_def)

text \<open>
  What a run with a given emitter comes to: all events of the list are emitted, and the summary
  is the one of a complete run; or the emitter's error is passed on.
\<close>

definition runs_through ::
  "(('s, 'e) emitter \<Rightarrow> 's \<Rightarrow> 's \<times> producerSummary \<times> 'e generate_error option) \<Rightarrow>
   generatedEvent list \<Rightarrow> producerSummary \<Rightarrow> 'e generate_error option \<Rightarrow> bool" where
  "runs_through run evs summary result \<longleftrightarrow>
     (\<forall>emit s. case emitAll emit evs s of
        (s', None) \<Rightarrow> run emit s = (s', summary, result)
      | (s', Some err) \<Rightarrow> \<exists>partial. run emit s = (s', partial, Some (EmitFailed err)))"

lemma produces_runs_through:
  assumes "produces (\<lambda>emit :: ('s, 'e generate_error) emitter. allPhases intn c emit) (startGenerator c source) xs g'"
    and "validateConfig c = None"
  shows "runs_through (generate intn source c :: ('s, 'e) emitter \<Rightarrow> _)
    (withDuplicates (nat (duplicateCount c)) xs) (eg_summary g')
    (if ps_TotalPublished (eg_summary g') = pc_Total c then None
     else Some (GeneratedCount (ps_TotalPublished (eg_summary g')) (pc_Total c)))"
  unfolding runs_through_def
proof (intro allI)
  let ?evs = "withDuplicates (nat (duplicateCount c)) xs" and ?sm = "eg_summary g'"
  fix emit :: "('s, 'e) emitter" and s
  obtain s1 r where run: "emitAll emit ?evs s = (s1, r)" by (meson surj_pair)
  then have run': "emitAll (wrapEmit emit) ?evs s = (s1, map_option EmitFailed r)"
    by (simp add: emitAll_wrapEmit)
  have "duplicatesRemaining (startGenerator c source) = duplicateCount c" by (simp add: startGenerator_def)
  moreover have "case emitAll (wrapEmit emit) (withDuplicates (nat (duplicatesRemaining (startGenerator c source))) xs) s of
      (s', None) \<Rightarrow> allPhases intn c (wrapEmit emit) (startGenerator c source, s) = ((g', s'), None)
    | (s', Some err) \<Rightarrow> \<exists>g''. allPhases intn c (wrapEmit emit) (startGenerator c source, s) = ((g'', s'), Some err)"
    by (rule conjunct1 [OF assms(1) [unfolded produces_def emits_def], rule_format])
  ultimately show "case emitAll emit ?evs s of
      (s', None) \<Rightarrow> generate intn source c emit s = (s', ?sm, if ps_TotalPublished ?sm = pc_Total c then None
        else Some (GeneratedCount (ps_TotalPublished ?sm) (pc_Total c)))
    | (s', Some err) \<Rightarrow> \<exists>partial. generate intn source c emit s = (s', partial, Some (EmitFailed err))"
    using run run' assms(2) by (cases r) (auto simp: generate_phases)
qed

lemma generate_runs:
  assumes "random_source intn" and "validateConfig c = None" and "pc_Total c < 2 ^ 53"
  shows "\<exists>xs summary. runs_through (generate intn source c :: ('s, 'e) emitter \<Rightarrow> _)
      (withDuplicates (nat (duplicateCount c)) xs) summary
      (if ps_TotalPublished summary = pc_Total c then None
       else Some (GeneratedCount (ps_TotalPublished summary) (pc_Total c))) \<and>
    int (length xs) = pc_Total c - duplicateCount c \<and>
    int (length (filter ge_OutOfOrder xs)) = outOfOrderCount c \<and>
    int (length (filter ge_Invalid xs)) = invalidCount c \<and>
    list_all (\<lambda>x. \<not> ge_Duplicate x) xs \<and> distinct (map (EventID \<circ> ge_Event) xs) \<and>
    ps_UniqueEventIDs summary = int (length xs) \<and>
    ps_DuplicateEvents summary = min (duplicateCount c) (int (length xs)) \<and>
    ps_TotalPublished summary = int (length xs) + min (duplicateCount c) (int (length xs)) \<and>
    ps_OutOfOrderEvents summary = outOfOrderCount c \<and> ps_InvalidTransitionEvents summary = invalidCount c \<and>
    0 \<le> ps_UniqueOrderIDs summary \<and>
    set (map (EventID \<circ> ge_Event) xs) = eventIDOf (pc_Seed c) ` {1..int (length xs)} \<and>
    (\<exists>bs. xs = concat bs \<and> list_all2 (block c (eg_baseTime (startGenerator c source)))
       (map (orderIDOf (pc_Seed c)) [1..ps_UniqueOrderIDs summary]) bs)"
proof -
  obtain xs g' where xs: "produces (\<lambda>emit :: ('s, 'e generate_error) emitter. allPhases intn c emit)
        (startGenerator c source) xs g'"
      "int (length xs) = pc_Total c - duplicateCount c"
      "int (length (filter ge_OutOfOrder xs)) = outOfOrderCount c"
      "int (length (filter ge_Invalid xs)) = invalidCount c" "scripted (startGenerator c source) xs g'"
    using random_source.allPhases_produces [OF assms(1), of c source] assms(2,3) by blast
  let ?evs = "withDuplicates (nat (duplicateCount c)) xs" and ?sm = "eg_summary g'"
  have start: "duplicatesRemaining (startGenerator c source) = duplicateCount c"
      "eg_summary (startGenerator c source) = zeroSummary\<lparr>ps_TotalRequested := pc_Total c, ps_Seed := pc_Seed c,
        ps_RedisStream := pc_Stream c\<rparr>" "eventSequence (startGenerator c source) = 0"
      "orderSequence (startGenerator c source) = 0" "eg_config (startGenerator c source) = c"
    by (simp_all add: startGenerator_def)
  note produces_runs_through [OF xs(1) assms(2)]
  moreover have adv: "advanced (startGenerator c source) xs g'" using xs(1) by (simp add: produces_def)
  moreover have "set (map (EventID \<circ> ge_Event) xs) = eventIDOf (pc_Seed c) ` {1..int (length xs)}"
    using arg_cong [where f = set_mset, OF adv [unfolded advanced_def, THEN conjunct2, THEN conjunct2, THEN conjunct2,
          THEN conjunct2, THEN conjunct2, THEN conjunct1]] adv start(3,5)
    by (simp add: advanced_def)
  moreover have "distinct (map (EventID \<circ> ge_Event) xs)"
    using produces_distinct [OF xs(1)] start(3) by simp
  ultimately show ?thesis
    using xs(2-5) start
    by (intro exI [of _ xs] exI [of _ ?sm])
       (simp add: advanced_def counters_advanced_def zeroSummary_def scripted_def)
qed


text \<open>An executable source, a linear congruential generator.\<close>

definition lcg :: "nat \<Rightarrow> nat \<Rightarrow> nat \<times> nat" where
  "lcg n r = (r mod n, (r * 1103515245 + 12345) mod 2 ^ 31)"

interpretation lcg: random_source lcg
  by unfold_locales (simp add: lcg_def)

lemma ratioCount_exact:
  assumes "0 \<le> n" and "n < 2 ^ 53" and "of_int n * r = of_int k" and "0 \<le> k" and "k < 2 ^ 53"
  shows "ratioCount n (Finite r) = k"
proof -
  have "round64 (of_int k) = Finite (of_int k)"
    using floatOfInt_exact [OF assms(4,5)] by (simp add: floatOfInt_def)
  moreover have "int64 k" using assms(4,5) by (simp add: int64_def)
  ultimately show ?thesis
    using assms floatOfInt_exact [OF assms(1,2)] by (simp add: ratioCount_def)
qed

definition demo_producer :: "rat \<Rightarrow> producerConfig" where
  "demo_producer d = \<lparr>pc_Total = 8, pc_DuplicateRatio = Finite d, pc_OutOfOrderRatio = Finite (1 / 8),
     pc_InvalidRatio = Finite 0, pc_RedisAddr = ''localhost:6379'', pc_Stream = ''order-events'',
     pc_Group = ''order-processors'', pc_Seed = 1, pc_BatchSize = 3\<rparr>"

lemma demo_counts:
  "ratioCount 8 (Finite (1 / 4)) = 2" "ratioCount 8 (Finite (3 / 4)) = 6" "ratioCount 8 (Finite (1 / 8)) = 1"
  "ratioCount 8 (Finite 0) = 0"
  by (intro ratioCount_exact; simp)+

lemma demo_producer_valid: "validateConfig (demo_producer (1 / 4)) = None" "validateConfig (demo_producer (3 / 4)) = None"
  by (simp_all add: validateConfig_def demo_producer_def demo_counts badRatio_def isNaN_def isInf_def
      scenario_size wrap64_def Let_def)


text \<open>
  C37: Too many duplicates.  \<open>validate\<close> accepts duplicate ratios above one half, but each event
  is duplicated at most once: \<open>generate\<close> then emits two events for each unique one and fails at
  the very end because their number is not the requested one.
\<close>

theorem too_many_duplicates_fail:
  assumes "random_source intn" and "validateConfig c = None" and "pc_Total c < 2 ^ 53"
    and "2 * ratioCount (pc_Total c) (pc_DuplicateRatio c) > pc_Total c"
  shows "\<exists>evs summary. let n = 2 * (pc_Total c - ratioCount (pc_Total c) (pc_DuplicateRatio c)) in
    int (length evs) = n \<and> n < pc_Total c \<and>
    runs_through (generate intn source c :: ('s, 'e) emitter \<Rightarrow> _) evs summary (Some (GeneratedCount n (pc_Total c)))"
proof -
  obtain xs summary where run: "runs_through (generate intn source c :: ('s, 'e) emitter \<Rightarrow> _)
        (withDuplicates (nat (duplicateCount c)) xs) summary
        (if ps_TotalPublished summary = pc_Total c then None
         else Some (GeneratedCount (ps_TotalPublished summary) (pc_Total c)))"
      and xs: "int (length xs) = pc_Total c - duplicateCount c"
      and sm: "ps_TotalPublished summary = int (length xs) + min (duplicateCount c) (int (length xs))"
    using generate_runs [OF assms(1-3), of source] by blast
  have "int (length xs) < duplicateCount c" using xs assms(4) by simp
  moreover from this have "length xs \<le> nat (duplicateCount c)" by simp
  moreover from calculation have "ps_TotalPublished summary = 2 * (pc_Total c - duplicateCount c)"
    using sm xs by simp
  ultimately show ?thesis
    using run xs assms(4)
    by (intro exI [of _ "withDuplicates (nat (duplicateCount c)) xs"] exI [of _ summary])
       (simp add: Let_def withDuplicates_facts min_absorb2)
qed

theorem too_many_duplicates_fail_witness:
  "\<exists>evs summary. length evs = 4 \<and>
     runs_through (generate lcg 1 (demo_producer (3 / 4)) :: (unit, unit) emitter \<Rightarrow> _) evs summary
       (Some (GeneratedCount 4 8))"
proof -
  have sel: "pc_Total (demo_producer (3 / 4)) = 8" "pc_DuplicateRatio (demo_producer (3 / 4)) = Finite (3 / 4)"
    by (simp_all add: demo_producer_def)
  from too_many_duplicates_fail [OF lcg.random_source_axioms demo_producer_valid(2), of 1] show ?thesis
    unfolding Let_def sel demo_counts by auto
qed

end
