(* ===== verification/Producer_Publish.thy ===== *)
theory Producer_Publish
  imports Producer_Properties
begin

text \<open>
  Publishing in batches is publishing one event after the other: the buffer of
  \<open>publishGenerated\<close> changes neither the order nor the number of the calls of \<open>Publish\<close>, and an
  error is reported with the number of events that were published before it.
\<close>

fun publishAll ::
  "('r, 'e) publisher \<Rightarrow> int \<Rightarrow> OrderEvent list \<Rightarrow> 'r \<Rightarrow> 'r \<times> 'e publish_error option" where
  "publishAll publish n [] q = (q, None)"
| "publishAll publish n (ev # evs) q =
     (case publish ev q of
        (q', Inl err) \<Rightarrow> (q', Some (PublishFailed (EventID ev) n err))
      | (q', Inr _) \<Rightarrow> publishAll publish (n + 1) evs q')"

lemma publishAll_append:
  "publishAll publish n (xs @ ys) q =
     (case publishAll publish n xs q of
        (q', Some err) \<Rightarrow> (q', Some err)
      | (q', None) \<Rightarrow> publishAll publish (n + int (length xs)) ys q')"
  by (induction xs arbitrary: n q) (auto split: prod.split sum.split option.split simp: add.assoc)

text \<open>What a flush does to the publisher and the counter.\<close>

lemma flushEvents_publishes:
  "\<exists>p'. flushEvents publish c xs p =
      (p', snd (publishAll publish (pub_total p) (map ge_Event xs) (pub_queue p))) \<and>
    pub_queue p' = fst (publishAll publish (pub_total p) (map ge_Event xs) (pub_queue p)) \<and>
    (snd (publishAll publish (pub_total p) (map ge_Event xs) (pub_queue p)) = None \<longrightarrow>
      pub_total p' = pub_total p + int (length xs))"
proof (induction xs arbitrary: p)
  case (Cons x xs)
  obtain q' r where pub: "publish (ge_Event x) (pub_queue p) = (q', r)" by (meson surj_pair)
  show ?case
  proof (cases r)
    case (Inl e)
    with pub show ?thesis by simp
  next
    case (Inr i)
    let ?p1 = "p\<lparr>pub_queue := q', pub_total := pub_total p + 1\<rparr>"
    define p2 where "p2 = (if pub_total ?p1 \<ge> pub_nextProgress ?p1
      then ?p1\<lparr>pub_output := pub_output ?p1 @ [progressLine (pub_total ?p1) (pc_Total c)],
        pub_nextProgress := pub_nextProgress ?p1 + 10000\<rparr> else ?p1)"
    have p2: "pub_queue p2 = q'" "pub_total p2 = pub_total p + 1" by (simp_all add: p2_def)
    have "flushEvents publish c (x # xs) p = flushEvents publish c xs p2"
      using pub Inr by (simp add: p2_def Let_def)
    with Cons.IH [of p2] pub Inr p2 show ?thesis by auto
  qed
qed simp

lemma flush_publishes:
  assumes "publishAll publish (pub_total p) (map ge_Event (pub_batch p)) (pub_queue p) = (q', r)"
  shows "\<exists>p'. flush publish c p = (p', r) \<and> pub_queue p' = q' \<and>
    (r = None \<longrightarrow> pub_batch p' = [] \<and> pub_total p' = pub_total p + int (length (pub_batch p)))"
  using flushEvents_publishes [of publish c "pub_batch p" p] assms
  by (cases r) (auto simp: flush_def)

text \<open>The events that were emitted are published or in the buffer, in order.\<close>

lemma emitAll_batched:
  "case emitAll (emitBatched publish c) xs p of
     (p', None) \<Rightarrow> \<exists>pre. pub_batch p @ xs = pre @ pub_batch p' \<and>
       publishAll publish (pub_total p) (map ge_Event pre) (pub_queue p) = (pub_queue p', None) \<and>
       pub_total p' = pub_total p + int (length pre)
   | (p', Some err) \<Rightarrow>
       publishAll publish (pub_total p) (map ge_Event (pub_batch p @ xs)) (pub_queue p) = (pub_queue p', Some err)"
proof (induction xs arbitrary: p)
  case Nil
  show ?case by (auto intro!: exI [of _ "[]"])
next
  case (Cons x xs)
  let ?p1 = "p\<lparr>pub_batch := pub_batch p @ [x]\<rparr>"
  show ?case
  proof (cases "int (length (pub_batch ?p1)) < pc_BatchSize c")
    case True
    then have "emitBatched publish c x p = (?p1, None)" by (simp add: emitBatched_def Let_def)
    with Cons.IH [of ?p1] show ?thesis by (auto split: prod.splits option.splits)
  next
    case False
    then have emit: "emitBatched publish c x p = flush publish c ?p1" by (simp add: emitBatched_def Let_def)
    obtain q' r where run: "publishAll publish (pub_total ?p1) (map ge_Event (pub_batch ?p1)) (pub_queue ?p1) = (q', r)"
      by (meson surj_pair)
    obtain p' where p': "flush publish c ?p1 = (p', r)" "pub_queue p' = q'"
        "r = None \<Longrightarrow> pub_batch p' = [] \<and> pub_total p' = pub_total p + int (length (pub_batch ?p1))"
      using flush_publishes [OF run, of c] by auto
    have split: "pub_batch p @ x # xs = pub_batch ?p1 @ xs" by simp
    show ?thesis
    proof (cases r)
      case (Some err)
      then show ?thesis
        using run emit p'(1,2) unfolding split map_append publishAll_append by simp
    next
      case None
      note p'' = p'(3) [OF None]
      obtain p2 r2 where rest: "emitAll (emitBatched publish c) xs p' = (p2, r2)" by (meson surj_pair)
      show ?thesis
      proof (cases r2)
        case (Some err)
        with Cons.IH [of p'] rest p'' run None emit p'(1,2) show ?thesis
          unfolding split map_append publishAll_append by simp
      next
        case none2: None
        with Cons.IH [of p'] rest p'' obtain pre where "xs = pre @ pub_batch p2"
            "publishAll publish (pub_total p') (map ge_Event pre) (pub_queue p') = (pub_queue p2, None)"
            "pub_total p2 = pub_total p' + int (length pre)"
          by auto
        note pre = this
        define b where "b = pub_batch p @ [x]"
        have "publishAll publish (pub_total p) (map ge_Event b) (pub_queue p) = (pub_queue p', None)"
          using run None p'(2) by (simp add: b_def)
        moreover have "pub_total p' = pub_total p + int (length b)" using p'' by (simp add: b_def)
        ultimately have "publishAll publish (pub_total p) (map ge_Event (b @ pre)) (pub_queue p) = (pub_queue p2, None)"
            "pub_total p2 = pub_total p + int (length (b @ pre))"
          using pre(2,3) by (simp_all add: publishAll_append)
        moreover have "pub_batch p @ x # xs = (b @ pre) @ pub_batch p2" using pre(1) by (simp add: b_def)
        ultimately have "\<exists>pre. pub_batch p @ x # xs = pre @ pub_batch p2 \<and>
            publishAll publish (pub_total p) (map ge_Event pre) (pub_queue p) = (pub_queue p2, None) \<and>
            pub_total p2 = pub_total p + int (length pre)"
          by blast
        then show ?thesis using none2 emit p'(1) None rest by auto
      qed
    qed
  qed
qed



end
