(* ===== verification/Producer_Events.thy ===== *)
theory Producer_Events
  imports Producer_Publish Repository
begin

text \<open>
  Every event of the generator is one the service accepts: its payload, as \<open>json.Marshal\<close>
  writes it, passes the scanner of \<open>json.Unmarshal\<close>, its time is not the zero time and its
  status is known.
\<close>

section \<open>The payload is a JSON object\<close>

definition plain_chars :: "string \<Rightarrow> bool" where
  "plain_chars s \<longleftrightarrow> list_all (\<lambda>ch. ch \<noteq> CHR 0x22 \<and> ch \<noteq> CHR 0x5C \<and> \<not> of_char ch < (0x20 :: nat)) s"

lemma json_scan_Nil [simp]: "json_scan conf [] = conf"
  by (simp add: json_scan_def)

lemma json_scan_Cons: "json_scan conf (ch # s) = json_scan (json_step conf ch) s"
  by (simp add: json_scan_def)

lemma scan_plain: "plain_chars s \<Longrightarrow> json_scan (InString, ps) (s @ rest) = json_scan (InString, ps) rest"
  by (induction s) (simp_all add: plain_chars_def json_scan_Cons)

lemma scan_quoted:
  assumes "plain_chars s" and "st \<in> {BeginValue, BeginString, BeginStringOrEmpty}"
  shows "json_scan (st, ps) (quoted s @ rest) = json_scan (EndValue, ps) rest"
  using assms scan_plain [OF assms(1), of ps "CHR 0x22 # rest"]
  by (auto simp: quoted_def json_scan_Cons begin_value_def is_space_def)

lemma scan_digits: "list_all is_digit ds \<Longrightarrow> json_scan (Digits1, ps) (ds @ rest) = json_scan (Digits1, ps) rest"
  by (induction ds) (simp_all add: json_scan_Cons)

text \<open>A number is followed by a comma or a brace, which ends it.\<close>

lemma scan_decimal:
  assumes "sep = CHR '','' \<or> sep = CHR ''}''" and "st = BeginValue \<or> st = Neg"
  shows "json_scan (st, ps) (decimal n @ sep # rest) = json_scan (end_value ps sep) rest"
proof -
  obtain ch ds where n: "decimal n = ch # ds" "is_digit ch" "list_all is_digit ds" "ch = CHR ''0'' \<longrightarrow> ds = []"
    by (rule decimal_Cons [of n])
  show ?thesis
  proof (cases "ch = CHR ''0''")
    case True
    with n(1,4) assms show ?thesis
      by (auto simp: json_scan_Cons begin_value_def digit0_def is_space_def)
  next
    case False
    have "json_step (st, ps) ch = (Digits1, ps)"
      using assms(2) n(2) False by (auto simp: begin_value_def is_space_def is_digit_def)
    then have "json_scan (st, ps) (decimal n @ sep # rest) = json_scan (Digits1, ps) (sep # rest)"
      using scan_digits [OF n(3)] n(1) by (simp add: json_scan_Cons)
    also have "\<dots> = json_scan (end_value ps sep) rest"
      using assms(1) by (auto simp: json_scan_Cons digit0_def is_digit_def)
    finally show ?thesis .
  qed
qed

lemma scan_int:
  assumes "sep = CHR '','' \<or> sep = CHR ''}''"
  shows "json_scan (BeginValue, ps) (appendInt x 0 @ sep # rest) = json_scan (end_value ps sep) rest"
  using scan_decimal [OF assms, of BeginValue ps "nat \<bar>x\<bar>" rest] scan_decimal [OF assms, of Neg ps "nat \<bar>x\<bar>" rest]
  by (cases "x < 0") (simp_all add: appendInt_def Let_def json_scan_Cons begin_value_def is_space_def)

lemma status_plain: "isKnown st \<Longrightarrow> plain_chars st"
  by (auto simp: isKnown_def status_defs plain_chars_def)

lemma payload_is_object:
  assumes "isKnown st"
  shows "unmarshal_object (marshalPayload seed n st) = Inr True"
proof -
  note scan = json_scan_Cons end_value_def is_space_def begin_value_def push_paren_def pop_paren_def max_nesting_depth_def
  have plain: "plain_chars ''generator''" "plain_chars ''load-producer''" "plain_chars ''seed''"
      "plain_chars ''sequence''" "plain_chars ''status''"
    by (simp_all add: plain_chars_def)
  have "json_scan (BeginValue, []) (marshalPayload seed n st) = (EndTop, [])"
    unfolding marshalPayload_def append_assoc append_Cons append_Nil
    by (simp add: scan scan_quoted plain scan_int status_plain [OF assms])
  then show ?thesis
    by (simp add: unmarshal_object_def json_valid_def is_space_def marshalPayload_def)
qed

section \<open>Generated events are valid\<close>

lemma epoch_value: "deterministicEpoch = 63871286400000000000"
  by code_simp

text \<open>The times stay within 585 years of the epoch, whatever the seed.\<close>

lemma made_time:
  assumes "made cfg (eg_baseTime (startGenerator cfg source)) oid x"
  shows "\<bar>Timestamp (ge_Event x) - deterministicEpoch\<bar> \<le> 2 ^ 64"
proof -
  have "\<bar>wrap64 (pc_Seed cfg * second_ns)\<bar> \<le> 2 ^ 63"
    using wrap64_range [of "pc_Seed cfg * second_ns"] by (auto simp: int64_def)
  with assms show ?thesis by (auto simp: made_def startGenerator_def int64_def)
qed

lemma script_known:
  assumes "map marks xs \<in> set scripts" and "x \<in> set xs"
  shows "isKnown (Status (ge_Event x))"
proof -
  have "marks x \<in> set (map marks xs)" using assms(2) by simp
  with assms(1) have "\<exists>ms \<in> set scripts. marks x \<in> set ms" by blast
  then show ?thesis by (auto simp: scripts_def lifecycles_def marks_def)
qed

lemma generated_valid:
  assumes "block cfg (eg_baseTime (startGenerator cfg source)) oid xs" and "x \<in> set xs" and "oid \<noteq> ''''"
  shows "validateEvent (ge_Event x) = Inr (Payload (ge_Event x))"
proof -
  have known: "isKnown (Status (ge_Event x))"
    using assms(1,2) by (intro script_known [of xs]) (simp_all add: block_def)
  have made: "made cfg (eg_baseTime (startGenerator cfg source)) oid x"
    using assms(1,2) by (simp add: block_def list_all_iff)
  have "\<not> IsZero (Timestamp (ge_Event x))"
    using made_time [OF made] by (auto simp: IsZero_def epoch_value)
  moreover from made have "EventID (ge_Event x) \<noteq> ''''" "OrderID (ge_Event x) = oid"
    by (auto simp: made_def eventIDOf_def)
  moreover from made have payload: "unmarshal_object (Payload (ge_Event x)) = Inr True"
    using payload_is_object [OF known] by (auto simp: made_def)
  moreover have "isPersistableStatus (Status (ge_Event x))"
    using known by (auto simp: isKnown_def isPersistableStatus_def)
  ultimately show ?thesis
    using assms(3) unmarshal_object_nonempty [OF payload] by (simp add: validateEvent_def)
qed

end
