(* ===== verification/Go_Flag.thy ===== *)
theory Go_Flag
  imports Go_Number
begin

text \<open>
  What the producer command uses of Go's package \<open>flag\<close>: \<open>FlagSet.Parse\<close> for flags that take a
  value, and the conversions \<open>strconv.ParseInt(s, 0, 64)\<close> and \<open>strconv.ParseFloat(s, 64)\<close> behind
  \<open>IntVar\<close>, \<open>Int64Var\<close> and \<open>Float64Var\<close>.  A syntax or range error of a conversion is \<open>None\<close>; the
  usage text that goes to the output is left out.
\<close>

section \<open>Integers in any base\<close>

definition digit_value :: "char \<Rightarrow> nat option" where
  "digit_value ch =
     (let n = of_char ch in
      if 48 \<le> n \<and> n \<le> 57 then Some (n - 48)
      else if 97 \<le> n \<and> n \<le> 122 then Some (n - 87)
      else if 65 \<le> n \<and> n \<le> 90 then Some (n - 55) else None)"

text \<open>The digits of a number; underscores are skipped here and checked below.\<close>

fun digits_in :: "nat \<Rightarrow> string \<Rightarrow> nat \<Rightarrow> nat option" where
  "digits_in base [] acc = Some acc"
| "digits_in base (ch # s) acc =
     (if ch = CHR ''_'' then digits_in base s acc
      else (case digit_value ch of
              Some d \<Rightarrow> if d < base then digits_in base s (acc * base + d) else None
            | None \<Rightarrow> None))"

definition prefix_base :: "string \<Rightarrow> nat option" where
  "prefix_base s =
     (case s of
        z # ch # _ \<Rightarrow>
          if z \<noteq> CHR ''0'' then None
          else if ch = CHR ''b'' \<or> ch = CHR ''B'' then Some 2
          else if ch = CHR ''o'' \<or> ch = CHR ''O'' then Some 8
          else if ch = CHR ''x'' \<or> ch = CHR ''X'' then Some 16 else None
      | _ \<Rightarrow> None)"

text \<open>\<open>underscoreOK\<close>: an underscore stands between digits; the base prefix counts as a digit.\<close>

datatype seen = SeenStart | SeenDigit | SeenUnderscore | SeenOther

fun underscores :: "bool \<Rightarrow> seen \<Rightarrow> string \<Rightarrow> bool" where
  "underscores hex i [] \<longleftrightarrow> i \<noteq> SeenUnderscore"
| "underscores hex i (ch # s) \<longleftrightarrow>
     (if is_digit ch \<or> hex \<and> is_hex ch then underscores hex SeenDigit s
      else if ch = CHR ''_'' then i = SeenDigit \<and> underscores hex SeenUnderscore s
      else i \<noteq> SeenUnderscore \<and> underscores hex SeenOther s)"

definition strip_sign :: "string \<Rightarrow> bool \<times> string" where
  "strip_sign s =
     (case s of
        ch # rest \<Rightarrow> if ch = CHR ''-'' then (True, rest) else if ch = CHR ''+'' then (False, rest) else (False, s)
      | [] \<Rightarrow> (False, []))"

definition underscoreOK :: "string \<Rightarrow> bool" where
  "underscoreOK s =
     (let s = snd (strip_sign s) in
      case prefix_base s of
        Some base \<Rightarrow> underscores (base = 16) SeenDigit (drop 2 s)
      | None \<Rightarrow> underscores False SeenStart s)"

text \<open>\<open>ParseUint(s, 0, 64)\<close>: a prefix needs a digit after it, and a leading zero means octal.\<close>

definition ParseUint0 :: "string \<Rightarrow> nat option" where
  "ParseUint0 s =
     (let (base, ds) = (case prefix_base s of
            Some base \<Rightarrow> if length s \<ge> 3 then (base, drop 2 s) else (8, tl s)
          | None \<Rightarrow> if s \<noteq> [] \<and> hd s = CHR ''0'' then (8, tl s) else (10, s))
      in if s = [] then None
         else (case digits_in base ds 0 of
                 None \<Rightarrow> None
               | Some n \<Rightarrow>
                   if n \<ge> 2 ^ 64 then None
                   else if CHR ''_'' \<in> set ds \<and> \<not> underscoreOK s then None else Some n))"

definition ParseInt0 :: "string \<Rightarrow> int option" where
  "ParseInt0 s =
     (case strip_sign s of (neg, ds) \<Rightarrow>
        (case ParseUint0 ds of
           None \<Rightarrow> None
         | Some n \<Rightarrow> (let x = (if neg then - int n else int n) in if int64 x then Some x else None)))"

section \<open>Floating point numbers\<close>

text \<open>
  The mantissa: its digits as one number, how many of them follow the point, whether there was
  a digit at all, and the rest of the text.
\<close>

fun read_mantissa :: "nat \<Rightarrow> string \<Rightarrow> bool \<Rightarrow> nat \<Rightarrow> nat \<Rightarrow> bool \<Rightarrow> nat \<times> nat \<times> bool \<times> string" where
  "read_mantissa base [] dot m fr saw = (m, fr, saw, [])"
| "read_mantissa base (ch # s) dot m fr saw =
     (if ch = CHR ''_'' then read_mantissa base s dot m fr saw
      else if ch = CHR ''.'' \<and> \<not> dot then read_mantissa base s True m fr saw
      else (case digit_value ch of
              Some d \<Rightarrow>
                if d < base then read_mantissa base s dot (m * base + d) (if dot then Suc fr else fr) True
                else (m, fr, saw, ch # s)
            | None \<Rightarrow> (m, fr, saw, ch # s)))"

text \<open>The digits of the exponent; from 10000 on further digits are ignored.\<close>

fun read_exponent :: "string \<Rightarrow> int \<Rightarrow> int \<times> string" where
  "read_exponent [] e = (e, [])"
| "read_exponent (ch # s) e =
     (if is_digit ch then read_exponent s (if e < 10000 then e * 10 + digit_val ch else e)
      else if ch = CHR ''_'' then read_exponent s e
      else (e, ch # s))"

definition power_int_rat :: "rat \<Rightarrow> int \<Rightarrow> rat" where
  "power_int_rat b e = (if 0 \<le> e then b ^ nat e else 1 / b ^ nat (- e))"

text \<open>\<open>readFloat\<close> on the whole text: the exact value it denotes.\<close>

definition readFloat :: "string \<Rightarrow> rat option" where
  "readFloat s =
     (let (neg, t) = strip_sign s;
          hex = (prefix_base t = Some 16 \<and> length t > 2);
          base = (if hex then 16 else 10);
          (m, fr, saw, rest) = read_mantissa base (if hex then drop 2 t else t) False 0 0 False;
          scale = (\<lambda>e. (if neg then -1 else 1) * (of_nat m / of_nat base ^ fr) *
                     power_int_rat (if hex then 2 else 10) e);
          checked = (\<lambda>x. if CHR ''_'' \<in> set s \<and> \<not> underscoreOK s then None else Some x)
      in if \<not> saw then None
         else (case rest of
                 ch # rest' \<Rightarrow>
                   if ch = (if hex then CHR ''p'' else CHR ''e'') \<or> ch = (if hex then CHR ''P'' else CHR ''E'') then
                     (case strip_sign rest' of (eneg, ds) \<Rightarrow>
                        if ds = [] \<or> \<not> is_digit (hd ds) then None
                        else (case read_exponent ds 0 of
                                (e, []) \<Rightarrow> checked (scale (if eneg then - e else e))
                              | (e, _ # _) \<Rightarrow> None))
                   else None
               | [] \<Rightarrow> if hex then None else checked (scale 0)))"

definition lower_ascii :: "string \<Rightarrow> string" where
  "lower_ascii = map (\<lambda>ch. let n = of_char ch :: nat in if 65 \<le> n \<and> n \<le> 90 then char_of (n + 32) else ch)"

text \<open>\<open>ParseFloat(s, 64)\<close>; a finite text whose value rounds to infinity is a range error.\<close>

definition ParseFloat :: "string \<Rightarrow> float64 option" where
  "ParseFloat s =
     (let (neg, t) = strip_sign s; word = lower_ascii t in
      if word = ''inf'' \<or> word = ''infinity'' then Some (Inf neg)
      else if lower_ascii s = ''nan'' then Some NaN
      else (case readFloat s of
              None \<Rightarrow> None
            | Some x \<Rightarrow> (case round64 x of Finite y \<Rightarrow> Some (Finite y) | _ \<Rightarrow> None)))"

section \<open>The flag set\<close>

datatype flag_error =
    ErrHelp | BadFlagSyntax string | FlagNotDefined string | FlagNeedsArgument string | InvalidValue string string

datatype argument = Positional | Terminator | BadSyntax | Flag string "string option"

text \<open>The kind of an argument: \<open>-name\<close>, \<open>--name\<close>, with or without \<open>=value\<close>, or none of them.\<close>

definition classify :: "string \<Rightarrow> argument" where
  "classify s =
     (if length s < 2 \<or> hd s \<noteq> CHR ''-'' then Positional
      else if s = ''--'' then Terminator
      else
        (let name = (if s ! 1 = CHR ''-'' then drop 2 s else drop 1 s) in
         if name = [] \<or> hd name = CHR ''-'' \<or> hd name = CHR ''='' then BadSyntax
         else
           (let key = hd name # takeWhile (\<lambda>ch. ch \<noteq> CHR ''='') (tl name);
                rest = dropWhile (\<lambda>ch. ch \<noteq> CHR ''='') (tl name)
            in Flag key (if rest = [] then None else Some (tl rest)))))"

text \<open>A flag's \<open>Set\<close> stores a value in the configuration or refuses it.\<close>

type_synonym 'c formal = "string \<Rightarrow> (string \<Rightarrow> 'c \<Rightarrow> 'c option) option"

fun parseFlags :: "'c formal \<Rightarrow> string list \<Rightarrow> 'c \<Rightarrow> flag_error + 'c \<times> string list" where
  "parseFlags formal [] c = Inr (c, [])"
| "parseFlags formal (s # args) c =
     (case classify s of
        Positional \<Rightarrow> Inr (c, s # args)
      | Terminator \<Rightarrow> Inr (c, args)
      | BadSyntax \<Rightarrow> Inl (BadFlagSyntax s)
      | Flag name inline \<Rightarrow>
          (case formal name of
             None \<Rightarrow> Inl (if name = ''help'' \<or> name = ''h'' then ErrHelp else FlagNotDefined name)
           | Some set_value \<Rightarrow>
               (case inline of
                  Some v \<Rightarrow>
                    (case set_value v c of
                       None \<Rightarrow> Inl (InvalidValue v name)
                     | Some c' \<Rightarrow> parseFlags formal args c')
                | None \<Rightarrow>
                    (case args of
                       [] \<Rightarrow> Inl (FlagNeedsArgument name)
                     | v # rest \<Rightarrow>
                         (case set_value v c of
                            None \<Rightarrow> Inl (InvalidValue v name)
                          | Some c' \<Rightarrow> parseFlags formal rest c')))))"

section \<open>Printed numbers are read back\<close>

lemma digit_value_digit_char: "digit_value (digit_char n) = Some (n mod 10)"
proof -
  have "m \<in> {0, 1, 2, 3, 4, 5, 6, 7, 8, 9}" if "m < 10" for m :: nat using that by auto
  from this [of "n mod 10"] show ?thesis by (auto simp: digit_char_def digit_value_def)
qed

lemma digit_not_special: "is_digit ch \<Longrightarrow> ch \<noteq> CHR ''_'' \<and> ch \<noteq> CHR ''-'' \<and> ch \<noteq> CHR ''+''"
  by (auto simp: is_digit_def)

lemma digits_in_decimal: "digits_in 10 (decimal n @ s) 0 = digits_in 10 s n"
proof (induction n arbitrary: s rule: decimal.induct)
  case (1 n)
  have digit: "digits_in 10 (digit_char n # s) k = digits_in 10 s (k * 10 + n mod 10)" for k
    using digit_not_special [OF digit_char_facts(1)] by (simp add: digit_value_digit_char)
  show ?case
  proof (cases "n < 10")
    case True
    then show ?thesis using digit [of 0] by (simp add: decimal.simps [of n] del: digits_in.simps)
  next
    case False
    then show ?thesis
      using 1 [OF False, of "digit_char n # s"] digit [of "n div 10"]
      by (simp add: decimal.simps [of n] del: digits_in.simps)
  qed
qed

lemma ParseUint0_decimal:
  assumes "n < 2 ^ 64"
  shows "ParseUint0 (decimal n) = Some n"
proof -
  obtain ch ds where n: "decimal n = ch # ds" "is_digit ch" "list_all is_digit ds" "ch = CHR ''0'' \<longrightarrow> ds = []"
    by (rule decimal_Cons [of n])
  have read: "digits_in 10 (ch # ds) 0 = Some n" using digits_in_decimal [of n "[]"] n(1) by simp
  have "CHR ''_'' \<notin> set (ch # ds)"
    using n(2,3) digit_not_special by (auto simp: list_all_iff)
  moreover have "ParseUint0 ''0'' = Some 0" by (simp add: ParseUint0_def prefix_base_def)
  moreover have "n = 0" if "ch = CHR ''0''"
    using that n(4) read by (simp add: digit_value_def)
  moreover have "prefix_base (ch # ds) = None" if "ch \<noteq> CHR ''0''"
    using that by (simp add: prefix_base_def split: list.split)
  ultimately show ?thesis
    using assms n(1,4) read by (cases "ch = CHR ''0''") (simp_all add: ParseUint0_def del: digits_in.simps)
qed

lemma ParseInt0_appendInt:
  assumes "int64 x"
  shows "ParseInt0 (appendInt x 0) = Some x"
proof -
  obtain ch ds where n: "decimal (nat \<bar>x\<bar>) = ch # ds" "is_digit ch" by (rule decimal_Cons [of "nat \<bar>x\<bar>"])
  have "ParseUint0 (decimal (nat \<bar>x\<bar>)) = Some (nat \<bar>x\<bar>)"
    using assms by (intro ParseUint0_decimal) (auto simp: int64_def)
  moreover have "strip_sign (appendInt x 0) = (x < 0, decimal (nat \<bar>x\<bar>))"
    using n digit_not_special by (auto simp: strip_sign_def appendInt_def Let_def)
  ultimately show ?thesis using assms by (simp add: ParseInt0_def)
qed

end
