(* ===== verification/Producer_Command.thy ===== *)
theory Producer_Command
  imports Producer_Events Go_Flag "HOL-Library.Multiset"
begin

text \<open>
  The producer's command, \<open>cmd/producer/main.go\<close>: its flags, the checks of the configuration, and
  the run.  The usage text and the signal handling are left out; \<open>log.Fatal\<close> is the error that
  the command ends with.
\<close>

section \<open>The flags\<close>

definition producerEnvOrDefault :: "(string \<Rightarrow> string) \<Rightarrow> string \<Rightarrow> string \<Rightarrow> string" where
  "producerEnvOrDefault getenv name fallback =
     (let value = getenv name in if value \<noteq> '''' then value else fallback)"

definition defaultConfig :: "(string \<Rightarrow> string) \<Rightarrow> producerConfig" where
  "defaultConfig getenv =
     \<lparr>pc_Total = 100000, pc_DuplicateRatio = round64 (5 / 100), pc_OutOfOrderRatio = round64 (3 / 100),
      pc_InvalidRatio = round64 (1 / 100),
      pc_RedisAddr = producerEnvOrDefault getenv ''REDIS_ADDR'' ''localhost:6379'',
      pc_Stream = producerEnvOrDefault getenv ''REDIS_STREAM'' ''order-events'',
      pc_Group = producerEnvOrDefault getenv ''REDIS_CONSUMER_GROUP'' ''order-processors'',
      pc_Seed = 1, pc_BatchSize = 100\<rparr>"

definition producerFlags :: "producerConfig formal" where
  "producerFlags name =
     (if name = ''total'' then Some (\<lambda>v c. map_option (\<lambda>n. c\<lparr>pc_Total := n\<rparr>) (ParseInt0 v))
      else if name = ''duplicate-ratio'' then Some (\<lambda>v c. map_option (\<lambda>x. c\<lparr>pc_DuplicateRatio := x\<rparr>) (ParseFloat v))
      else if name = ''out-of-order-ratio'' then Some (\<lambda>v c. map_option (\<lambda>x. c\<lparr>pc_OutOfOrderRatio := x\<rparr>) (ParseFloat v))
      else if name = ''invalid-ratio'' then Some (\<lambda>v c. map_option (\<lambda>x. c\<lparr>pc_InvalidRatio := x\<rparr>) (ParseFloat v))
      else if name = ''redis-addr'' then Some (\<lambda>v c. Some (c\<lparr>pc_RedisAddr := v\<rparr>))
      else if name = ''stream'' then Some (\<lambda>v c. Some (c\<lparr>pc_Stream := v\<rparr>))
      else if name = ''group'' then Some (\<lambda>v c. Some (c\<lparr>pc_Group := v\<rparr>))
      else if name = ''seed'' then Some (\<lambda>v c. map_option (\<lambda>n. c\<lparr>pc_Seed := n\<rparr>) (ParseInt0 v))
      else if name = ''batch-size'' then Some (\<lambda>v c. map_option (\<lambda>n. c\<lparr>pc_BatchSize := n\<rparr>) (ParseInt0 v))
      else None)"

datatype parse_error = FlagError flag_error | UnexpectedArguments "string list" | ConfigError config_error

definition parseConfig :: "(string \<Rightarrow> string) \<Rightarrow> string list \<Rightarrow> parse_error + producerConfig" where
  "parseConfig getenv args =
     (case parseFlags producerFlags args (defaultConfig getenv) of
        Inl err \<Rightarrow> Inl (FlagError err)
      | Inr (config, rest) \<Rightarrow>
          if rest \<noteq> [] then Inl (UnexpectedArguments rest)
          else (case validateConfig config of
                  Some err \<Rightarrow> Inl (ConfigError err)
                | None \<Rightarrow> Inr config))"

section \<open>The run\<close>

datatype producer_error =
    RunEnsureGroup queue_error | RunGenerate "queue_error publish_error generate_error"

text \<open>The lines written to the output, and the error; \<open>intn\<close> and \<open>source\<close> as in \<open>generate\<close>.\<close>

definition runProducer ::
  "(nat \<Rightarrow> 'g \<Rightarrow> nat \<times> 'g) \<Rightarrow> 'g \<Rightarrow> 'r redis_client \<Rightarrow> producerConfig \<Rightarrow> 'r \<Rightarrow>
   'r \<times> string list \<times> producer_error option" where
  "runProducer intn source redisClient config s =
     (let streamQueue = NewRedisStreamQueue redisClient (pc_Stream config) (pc_Group config)
      in case EnsureGroup streamQueue s of
           (s', Some err) \<Rightarrow> (s', [], Some (RunEnsureGroup err))
         | (s', None) \<Rightarrow>
             (case publishGenerated intn source (Publish streamQueue) config s' of
                (p, Inl err) \<Rightarrow> (pub_queue p, pub_output p, Some (RunGenerate err))
              | (p, Inr summary) \<Rightarrow> (pub_queue p, pub_output p @ printSummary summary, None)))"

datatype fatal = FatalConfig parse_error | FatalRun producer_error

text \<open>
  \<open>main\<close>: asking for help is no error.  \<open>newSource\<close> makes the random source of a seed.
\<close>

definition producerMain ::
  "(nat \<Rightarrow> 'g \<Rightarrow> nat \<times> 'g) \<Rightarrow> (int \<Rightarrow> 'g) \<Rightarrow> 'r redis_client \<Rightarrow> (string \<Rightarrow> string) \<Rightarrow> string list \<Rightarrow> 'r \<Rightarrow>
   'r \<times> string list \<times> fatal option" where
  "producerMain intn newSource redisClient getenv args s =
     (case parseConfig getenv args of
        Inl err \<Rightarrow> if err = FlagError ErrHelp then (s, [], None) else (s, [], Some (FatalConfig err))
      | Inr config \<Rightarrow>
          (case runProducer intn (newSource (pc_Seed config)) redisClient config s of
             (s', out, Some err) \<Rightarrow> (s', out, Some (FatalRun err))
           | (s', out, None) \<Rightarrow> (s', out, None)))"

section \<open>Flags on the command line\<close>

definition flagArg :: "string \<times> string \<Rightarrow> string" where
  "flagArg kv = ''-'' @ fst kv @ ''='' @ snd kv"

lemma classify_flagArg:
  assumes "k \<noteq> ''''" and "CHR ''='' \<notin> set k" and "hd k \<noteq> CHR ''-''"
  shows "classify (flagArg (k, v)) = Flag k (Some v)"
proof (cases k)
  case (Cons ch ks)
  with assms have "takeWhile (\<lambda>ch. ch \<noteq> CHR ''='') (ks @ CHR ''='' # v) = ks"
      "dropWhile (\<lambda>ch. ch \<noteq> CHR ''='') (ks @ CHR ''='' # v) = CHR ''='' # v"
    by (subst takeWhile_append2 dropWhile_append2; auto)+
  with Cons assms show ?thesis by (auto simp: classify_def flagArg_def Let_def)
qed (use assms in simp)

text \<open>Storing a value; an unknown flag or a refused value changes nothing here.\<close>

definition store :: "string \<times> string \<Rightarrow> producerConfig \<Rightarrow> producerConfig" where
  "store kv c =
     (case producerFlags (fst kv) of
        Some set_value \<Rightarrow> (case set_value (snd kv) c of Some c' \<Rightarrow> c' | None \<Rightarrow> c)
      | None \<Rightarrow> c)"

definition accepted :: "string \<times> string \<Rightarrow> bool" where
  "accepted kv \<longleftrightarrow>
     (\<exists>set_value. producerFlags (fst kv) = Some set_value \<and> (\<forall>c. set_value (snd kv) c \<noteq> None))"

lemma producerFlags_names:
  "producerFlags k = Some f \<Longrightarrow> k \<noteq> '''' \<and> CHR ''='' \<notin> set k \<and> hd k \<noteq> CHR ''-''"
  by (auto simp: producerFlags_def split: if_splits)

lemma parseFlags_accepted:
  assumes "list_all accepted kvs"
  shows "parseFlags producerFlags (map flagArg kvs) c = Inr (fold store kvs c, [])"
  using assms
proof (induction kvs arbitrary: c)
  case (Cons kv kvs)
  then obtain f where f: "producerFlags (fst kv) = Some f" "\<And>c. f (snd kv) c \<noteq> None"
    by (auto simp: accepted_def)
  then obtain c' where c': "f (snd kv) c = Some c'" by blast
  have "classify (flagArg kv) = Flag (fst kv) (Some (snd kv))"
    using classify_flagArg [of "fst kv" "snd kv"] producerFlags_names [OF f(1)] by simp
  moreover have "store kv c = c'" by (simp add: store_def f(1) c')
  ultimately show ?case using Cons f(1) c' by simp
qed simp

text \<open>The texts of a configuration's fields; the ratios are given as texts that denote them.\<close>

definition flagValues :: "producerConfig \<Rightarrow> string \<Rightarrow> string \<Rightarrow> string \<Rightarrow> (string \<times> string) list" where
  "flagValues cfg duplicates out_of_order invalid =
     [(''total'', appendInt (pc_Total cfg) 0), (''duplicate-ratio'', duplicates),
      (''out-of-order-ratio'', out_of_order), (''invalid-ratio'', invalid),
      (''redis-addr'', pc_RedisAddr cfg), (''stream'', pc_Stream cfg), (''group'', pc_Group cfg),
      (''seed'', appendInt (pc_Seed cfg) 0), (''batch-size'', appendInt (pc_BatchSize cfg) 0)]"

lemma store_simps:
  "store (''total'', v) c = (case ParseInt0 v of Some n \<Rightarrow> c\<lparr>pc_Total := n\<rparr> | None \<Rightarrow> c)"
  "store (''duplicate-ratio'', v) c = (case ParseFloat v of Some x \<Rightarrow> c\<lparr>pc_DuplicateRatio := x\<rparr> | None \<Rightarrow> c)"
  "store (''out-of-order-ratio'', v) c = (case ParseFloat v of Some x \<Rightarrow> c\<lparr>pc_OutOfOrderRatio := x\<rparr> | None \<Rightarrow> c)"
  "store (''invalid-ratio'', v) c = (case ParseFloat v of Some x \<Rightarrow> c\<lparr>pc_InvalidRatio := x\<rparr> | None \<Rightarrow> c)"
  "store (''redis-addr'', v) c = c\<lparr>pc_RedisAddr := v\<rparr>"
  "store (''stream'', v) c = c\<lparr>pc_Stream := v\<rparr>"
  "store (''group'', v) c = c\<lparr>pc_Group := v\<rparr>"
  "store (''seed'', v) c = (case ParseInt0 v of Some n \<Rightarrow> c\<lparr>pc_Seed := n\<rparr> | None \<Rightarrow> c)"
  "store (''batch-size'', v) c = (case ParseInt0 v of Some n \<Rightarrow> c\<lparr>pc_BatchSize := n\<rparr> | None \<Rightarrow> c)"
  by (auto simp: store_def producerFlags_def split: option.split)

text \<open>The texts denote the configuration.\<close>

definition denotes :: "producerConfig \<Rightarrow> string \<Rightarrow> string \<Rightarrow> string \<Rightarrow> bool" where
  "denotes cfg duplicates out_of_order invalid \<longleftrightarrow>
     int64 (pc_Total cfg) \<and> int64 (pc_Seed cfg) \<and> int64 (pc_BatchSize cfg) \<and>
     ParseFloat duplicates = Some (pc_DuplicateRatio cfg) \<and>
     ParseFloat out_of_order = Some (pc_OutOfOrderRatio cfg) \<and>
     ParseFloat invalid = Some (pc_InvalidRatio cfg)"

lemma flagValues_stored:
  assumes "denotes cfg d p i"
  shows "list_all accepted (flagValues cfg d p i)"
    and "x \<in> set (flagValues cfg d p i) \<Longrightarrow> y \<in> set (flagValues cfg d p i) \<Longrightarrow> store x \<circ> store y = store y \<circ> store x"
    and "fold store (flagValues cfg d p i) c = cfg"
proof -
  note parsed = assms [unfolded denotes_def] ParseInt0_appendInt
  show "list_all accepted (flagValues cfg d p i)"
    using parsed by (simp add: flagValues_def accepted_def producerFlags_def)
  show "fold store (flagValues cfg d p i) c = cfg"
    using parsed by (simp add: flagValues_def store_simps)
  show "store x \<circ> store y = store y \<circ> store x"
    if "x \<in> set (flagValues cfg d p i)" "y \<in> set (flagValues cfg d p i)"
    using that parsed unfolding flagValues_def list.set insert_iff empty_iff
    by (elim disjE; simp add: store_simps fun_eq_iff)
qed

text \<open>
  C39: Flags round trip.  Give every field of a configuration by its flag, the numbers printed in
  decimal, the ratios by any texts that denote them, the flags in any order: \<open>parseConfig\<close>
  returns that very configuration, whatever the environment, if \<open>validate\<close> accepts it, and the
  error of \<open>validate\<close> otherwise.
\<close>

theorem flags_roundtrip:
  assumes "denotes cfg d p i" and "mset kvs = mset (flagValues cfg d p i)"
  shows "parseConfig getenv (map flagArg kvs) =
    (case validateConfig cfg of None \<Rightarrow> Inr cfg | Some err \<Rightarrow> Inl (ConfigError err))"
proof -
  have kvs: "set kvs = set (flagValues cfg d p i)" using assms(2) by (rule mset_eq_setD)
  then have "list_all accepted kvs" using flagValues_stored(1) [OF assms(1)] by (simp add: list_all_iff)
  moreover have "fold store kvs = fold store (flagValues cfg d p i)"
    using flagValues_stored(2) [OF assms(1)] kvs assms(2) by (intro fold_multiset_equiv) auto
  ultimately show ?thesis
    by (simp add: parseConfig_def parseFlags_accepted flagValues_stored(3) [OF assms(1)])
qed

lemma demo_ratio_texts:
  "ParseFloat ''0.25'' = Some (Finite (1 / 4))" "ParseFloat ''0x1p-3'' = Some (Finite (1 / 8))"
  "ParseFloat ''0'' = Some (Finite 0)"
proof -
  note read = readFloat_def strip_sign_def prefix_base_def digit_value_def is_digit_def
    power_int_rat_def digit_val_def
  have "readFloat ''0.25'' = Some (1 / 4)" "readFloat ''0x1p-3'' = Some (1 / 8)" "readFloat ''0'' = Some 0"
    by (simp_all add: read)
  moreover have "round64 (1 / 4) = Finite (1 / 4)" "round64 (1 / 8) = Finite (1 / 8)" "round64 0 = Finite 0"
    by (rule round64_exact [where m = 1 and e = "-2"] round64_exact [where m = 1 and e = "-3"]
        round64_exact [where m = 0 and e = 0]; simp add: two_power_def)+
  ultimately show "ParseFloat ''0.25'' = Some (Finite (1 / 4))" "ParseFloat ''0x1p-3'' = Some (Finite (1 / 8))"
    "ParseFloat ''0'' = Some (Finite 0)"
    by (simp_all add: ParseFloat_def strip_sign_def lower_ascii_def)
qed

theorem flags_roundtrip_witness:
  "parseConfig (\<lambda>_. '''') (map flagArg (rev (flagValues (demo_producer (1 / 4)) ''0.25'' ''0x1p-3'' ''0''))) =
     Inr (demo_producer (1 / 4))"
proof -
  have "denotes (demo_producer (1 / 4)) ''0.25'' ''0x1p-3'' ''0''"
    by (simp add: denotes_def demo_ratio_texts demo_producer_def int64_def)
  from flags_roundtrip [OF this, of "rev (flagValues (demo_producer (1 / 4)) ''0.25'' ''0x1p-3'' ''0'')"]
  show ?thesis by (simp add: demo_producer_valid(1))
qed

end
