(* ===== verification/Load_Run.thy ===== *)
theory Load_Run
  imports Producer_Events Repository_Arrivals
begin

text \<open>
  The load test end to end: the events of a run of the producer, processed one after the other
  on empty tables.  The marks the producer puts on its events (duplicate, out of order, invalid)
  are the verdicts the service comes to, so that the counts in the producer's summary can be
  read off the tables.
\<close>

section \<open>Duplicates do not count\<close>

abbreviation arrivals_of :: "generatedEvent list \<Rightarrow> arrivals" where
  "arrivals_of xs \<equiv> map (\<lambda>x. arrival (ge_Event x)) xs"

lemma run_withDuplicates:
  "run_tables c (arrivals_of (withDuplicates d xs)) t = run_tables c (arrivals_of xs) t"
  by (induction d xs arbitrary: t rule: withDuplicates.induct)
     (simp_all add: duplicateOf_def process_tables_again)

section \<open>One order\<close>

definition verdict :: "generatedEvent \<Rightarrow> string" where
  "verdict x = (if ge_Invalid x then ClassificationInvalidTransition else ClassificationApplied)"

definition judged :: "generatedEvent list \<Rightarrow> string \<Rightarrow> tables \<Rightarrow> bool" where
  "judged xs oid t \<longleftrightarrow> orders t oid \<noteq> None \<and>
     (\<forall>x \<in> set xs. outcome_of t (EventID (ge_Event x)) = Some (verdict x))"

lemma judged_script:
  assumes "map marks xs \<in> set scripts" and "distinct (map (EventID \<circ> ge_Event) xs)"
    and "\<forall>x \<in> set xs. OrderID (ge_Event x) = oid"
  shows "judged xs oid (run_tables c (arrivals_of xs) empty_tables)"
proof -
  note eval = judged_def verdict_def outcome_of_def eval_tables Let_def pending_event_def
  from assms(1) consider
      "map marks xs = scripts ! 0" | "map marks xs = scripts ! 1" | "map marks xs = scripts ! 2"
    | "map marks xs = scripts ! 3" | "map marks xs = scripts ! 4" | "map marks xs = scripts ! 5"
    | "map marks xs = scripts ! 6" | "map marks xs = scripts ! 7"
    by (auto simp: scripts_def lifecycles_def)
  then show ?thesis
    using assms(2,3)
    by cases (clarsimp simp: scripts_def lifecycles_def map_eq_Cons_conv marks_def, simp add: eval)+
qed

section \<open>All orders\<close>

lemma orderIDOf_inj: "0 \<le> m \<Longrightarrow> 0 \<le> n \<Longrightarrow> orderIDOf seed m = orderIDOf seed n \<longleftrightarrow> m = n"
  by (auto simp: orderIDOf_def dest: arg_cong [of _ _ digits_val] simp: digits_val_appendInt)

lemma block_order: "block cfg base oid b \<Longrightarrow> x \<in> set b \<Longrightarrow> OrderID (ge_Event x) = oid"
  by (simp add: block_def made_def list_all_iff)

text \<open>The events of an order are its block.\<close>

lemma filter_blocks:
  assumes "list_all2 (block cfg base) oids bs" and "distinct oids"
  shows "oid \<notin> set oids \<Longrightarrow> filter (\<lambda>x. OrderID (ge_Event x) = oid) (concat bs) = []"
    and "oid \<in> set oids \<Longrightarrow> block cfg base oid (filter (\<lambda>x. OrderID (ge_Event x) = oid) (concat bs))"
proof -
  let ?of = "\<lambda>bs. filter (\<lambda>x. OrderID (ge_Event x) = oid) (concat bs)"
  have other: "?of bs = []" if "list_all2 (block cfg base) oids bs" "oid \<notin> set oids" for oids bs
    using that by (induction rule: list_all2_induct) (auto simp: filter_empty_conv dest: block_order)
  then show "oid \<notin> set oids \<Longrightarrow> ?of bs = []" using assms(1) by blast
  show "oid \<in> set oids \<Longrightarrow> block cfg base oid (?of bs)"
    using assms
  proof (induction rule: list_all2_induct)
    case (Cons o1 oids b bs)
    show ?case
    proof (cases "o1 = oid")
      case True
      then have "filter (\<lambda>x. OrderID (ge_Event x) = oid) b = b"
        using block_order [OF Cons.hyps(1)] by (simp add: filter_id_conv)
      then show ?thesis using other [OF Cons.hyps(2)] Cons.hyps(1) Cons.prems True by simp
    next
      case False
      then have "filter (\<lambda>x. OrderID (ge_Event x) = oid) b = []"
        using block_order [OF Cons.hyps(1)] by (auto simp: filter_empty_conv)
      then show ?thesis using Cons.IH Cons.prems False by simp
    qed
  qed simp
qed

lemma slice_outcome:
  assumes "outcome_of (slice_of oid t) eid = Some out"
  shows "outcome_of t eid = Some out"
  using assms by (auto simp: outcome_of_def slice_of_def processed_of_def split: option.splits if_splits)

lemma slice_orders: "orders (slice_of oid t) oid = orders t oid"
  by (simp add: slice_of_def)

lemma dom_processed_run:
  "dom (processed_events (run_tables c as t)) = (EventID \<circ> fst) ` set as \<union> dom (processed_events t)"
  by (induction as arbitrary: t) (auto simp: dom_processed_process_tables)

lemma consistent_run:
  assumes "consistent t" and "\<forall>a \<in> set as. isKnown (Status (fst a))"
  shows "consistent (run_tables c as t)"
  using assms by (induction as arbitrary: t) (simp_all add: consistent_process_tables)

text \<open>After all blocks every event has its verdict, and every order its row.\<close>

lemma blocks_judged:
  fixes c :: pg_codec
  assumes "list_all2 (block cfg base) oids bs" and "distinct oids"
    and "distinct (map (EventID \<circ> ge_Event) (concat bs))"
  defines "t \<equiv> run_tables c (arrivals_of (concat bs)) empty_tables"
  shows "\<forall>x \<in> set (concat bs). outcome_of t (EventID (ge_Event x)) = Some (verdict x)"
    and "dom (orders t) = set oids" and "consistent t"
    and "dom (processed_events t) = (EventID \<circ> ge_Event) ` set (concat bs)"
proof -
  let ?xs = "concat bs" and ?of = "\<lambda>oid. filter (\<lambda>x. OrderID (ge_Event x) = oid) (concat bs)"
  have own: "OrderID (ge_Event x) \<in> set oids" if "x \<in> set ?xs" for x
    using filter_blocks(1) [OF assms(1,2), of "OrderID (ge_Event x)"] that by (auto simp: filter_empty_conv)
  have known: "isKnown (Status (ge_Event x))" if "x \<in> set ?xs" for x
  proof (rule script_known [of "?of (OrderID (ge_Event x))"])
    show "map marks (?of (OrderID (ge_Event x))) \<in> set scripts"
      using filter_blocks(2) [OF assms(1,2) own [OF that]] by (simp add: block_def)
  qed (use that in simp)
  then have kn: "\<forall>a \<in> set (arrivals_of ?xs). isKnown (Status (fst a))" by simp
  have uniq: "x = y" if "x \<in> set ?xs" "y \<in> set ?xs" "EventID (ge_Event x) = EventID (ge_Event y)" for x y
    using assms(3) that unfolding distinct_map by (metis comp_apply inj_onD)
  have "well_owned (arrivals_of ?xs) empty_tables"
    using known uniq by (auto simp: well_owned_def)
  then have slice: "slice_of oid t = run_tables c (arrivals_of (?of oid)) empty_tables" for oid
    unfolding t_def using slice_run_tables [OF consistent_empty]
    by (simp add: for_order_def filter_map comp_def)
  have judged: "judged (?of oid) oid (slice_of oid t)" if "oid \<in> set oids" for oid
    unfolding slice
  proof (rule judged_script)
    show "map marks (?of oid) \<in> set scripts"
      using filter_blocks(2) [OF assms(1,2) that] by (simp add: block_def)
    show "distinct (map (EventID \<circ> ge_Event) (?of oid))" using assms(3) by (simp add: distinct_map_filter)
  qed simp
  show "\<forall>x \<in> set ?xs. outcome_of t (EventID (ge_Event x)) = Some (verdict x)"
  proof
    fix x
    assume x: "x \<in> set ?xs"
    then have "x \<in> set (?of (OrderID (ge_Event x)))" by simp
    with judged [OF own [OF x]] show "outcome_of t (EventID (ge_Event x)) = Some (verdict x)"
      unfolding judged_def by (blast intro: slice_outcome)
  qed
  have "oid \<in> dom (orders t) \<longleftrightarrow> oid \<in> set oids" for oid
  proof (cases "oid \<in> set oids")
    case True
    with judged [OF True] show ?thesis by (auto simp: judged_def slice_orders domIff)
  next
    case False
    with filter_blocks(1) [OF assms(1,2) False] slice [of oid] have "slice_of oid t = empty_tables" by simp
    then have "orders t oid = None" using slice_orders [of oid t] by (simp add: empty_tables_def)
    with False show ?thesis by (simp add: domIff)
  qed
  then show "dom (orders t) = set oids" by blast
  show "consistent t" unfolding t_def by (rule consistent_run [OF consistent_empty kn])
  show "dom (processed_events t) = (EventID \<circ> ge_Event) ` set ?xs"
    unfolding t_def dom_processed_run by (simp add: empty_tables_def image_image)
qed

text \<open>The tables after the run, in numbers.\<close>

lemma judged_counts:
  assumes "consistent t" and "dom (processed_events t) = (EventID \<circ> ge_Event) ` set xs"
    and "\<forall>x \<in> set xs. outcome_of t (EventID (ge_Event x)) = Some (verdict x)"
    and "distinct (map (EventID \<circ> ge_Event) xs)"
  shows "pending_events t = []"
    and "dl_event_id ` set (dead_letter_events t) = (EventID \<circ> ge_Event) ` {x \<in> set xs. ge_Invalid x}"
    and "length (dead_letter_events t) = length (filter ge_Invalid xs)"
    and "length (order_status_history t) + length (filter ge_Invalid xs) = length xs"
    and "card (dom (processed_events t)) = length xs"
proof -
  let ?id = "EventID \<circ> ge_Event" and ?applied = "filter (\<lambda>x. \<not> ge_Invalid x) xs"
  have acc: "accounted t" using assms(1) by (simp add: consistent_def)
  have out: "outcome_of t eid = Some out \<longleftrightarrow> (\<exists>x \<in> set xs. ?id x = eid \<and> verdict x = out)" for eid out
  proof
    assume some: "outcome_of t eid = Some out"
    then have "eid \<in> dom (processed_events t)" by (auto simp: outcome_of_def)
    then obtain x where "x \<in> set xs" "?id x = eid" unfolding assms(2) by auto
    with some assms(3) show "\<exists>x \<in> set xs. ?id x = eid \<and> verdict x = out" by auto
  qed (use assms(3) in auto)
  have "eid \<notin> pe_event_id ` set (pending_events t)" for eid
    using acc out [of eid ClassificationOutOfOrder]
    by (auto simp: accounted_def verdict_def split: if_splits)
  then show "pending_events t = []" by (cases "pending_events t") auto
  have "verdict x = ClassificationInvalidTransition \<longleftrightarrow> ge_Invalid x" "verdict x = ClassificationApplied \<longleftrightarrow> \<not> ge_Invalid x" for x
    by (simp_all add: verdict_def)
  note out' = out [of _ ClassificationInvalidTransition, unfolded this(1)]
      out [of _ ClassificationApplied, unfolded this(2)]
  have dead: "dl_event_id ` set (dead_letter_events t) = ?id ` set (filter ge_Invalid xs)"
    using acc unfolding accounted_def out' by (intro set_eqI) auto
  then show "dl_event_id ` set (dead_letter_events t) = ?id ` {x \<in> set xs. ge_Invalid x}" by simp
  have hist: "h_event_id ` set (order_status_history t) = ?id ` set ?applied"
    using acc unfolding accounted_def out' by (intro set_eqI) auto
  have size: "length ys = length zs" if "distinct (map f ys)" "distinct (map g zs)" "f ` set ys = g ` set zs"
    for ys :: "'a list" and zs :: "'b list" and f :: "'a \<Rightarrow> string" and g :: "'b \<Rightarrow> string"
    using distinct_card [OF that(1)] distinct_card [OF that(2)] that(3) by simp
  show len: "length (dead_letter_events t) = length (filter ge_Invalid xs)"
    using size [OF _ distinct_map_filter [OF assms(4)] dead] acc by (simp add: accounted_def)
  have "length (order_status_history t) = length ?applied"
    using size [OF _ distinct_map_filter [OF assms(4)] hist] acc by (simp add: accounted_def)
  then show "length (order_status_history t) + length (filter ge_Invalid xs) = length xs"
    using sum_length_filter_compl [of ge_Invalid xs] by simp
  show "card (dom (processed_events t)) = length xs"
    unfolding assms(2) using distinct_card [OF assms(4)] by simp
qed

section \<open>The run on a database\<close>

context pg_available
begin

lemma process_all_succeeds:
  assumes "available s" and "consistent (committed s)" and "storable codec (committed s)"
    and "\<forall>ev \<in> set evs. \<exists>p. validateEvent ev = Inr p \<and> event_storable codec ev p"
  shows "\<exists>s'. process_all db evs s = Some s'"
  using assms
proof (induction evs arbitrary: s)
  case (Cons ev evs)
  then obtain p where p: "validateEvent ev = Inr p" "event_storable codec ev p" by auto
  obtain s1 r where s1: "ProcessEventTx db ev s = Some (s1, Inr r)" "available s1"
      "committed s1 = fst (process_tables codec ev p (committed s))"
    using ProcessEventTx_succeeds [OF Cons.prems(1-3) p] by auto
  have "consistent (committed s1)" "storable codec (committed s1)"
    unfolding s1(3)
    using consistent_process_tables [OF Cons.prems(2) validateEvent_known [OF p(1)]]
      storable_process_tables [OF Cons.prems(3) p(2)] by simp_all
  with Cons.IH [OF s1(2)] Cons.prems(4) s1(1) show ?case by simp
qed simp

end

definition tally :: "generatedEvent list \<Rightarrow> producerSummary \<Rightarrow> tables \<Rightarrow> bool" where
  "tally evs summary t \<longleftrightarrow>
     pending_events t = [] \<and>
     dl_event_id ` set (dead_letter_events t) = (EventID \<circ> ge_Event) ` {x \<in> set evs. ge_Invalid x} \<and>
     int (length (dead_letter_events t)) = ps_InvalidTransitionEvents summary \<and>
     int (length (order_status_history t)) = ps_UniqueEventIDs summary - ps_InvalidTransitionEvents summary \<and>
     int (card (dom (processed_events t))) = ps_UniqueEventIDs summary \<and>
     int (card (dom (orders t))) = ps_UniqueOrderIDs summary"

lemma distinct_orderIDs: "distinct (map (orderIDOf seed) [1..n])"
  by (auto simp: distinct_map inj_on_def orderIDOf_inj)

lemma run_tally:
  assumes "list_all2 (block cfg base) (map (orderIDOf (pc_Seed cfg)) [1..ps_UniqueOrderIDs summary]) bs"
    and "distinct (map (EventID \<circ> ge_Event) (concat bs))" and "0 \<le> ps_UniqueOrderIDs summary"
    and "ps_UniqueEventIDs summary = int (length (concat bs))"
    and "ps_InvalidTransitionEvents summary = int (length (filter ge_Invalid (concat bs)))"
  shows "tally (withDuplicates d (concat bs)) summary
    (run_tables c (arrivals_of (withDuplicates d (concat bs))) empty_tables)"
proof -
  let ?xs = "concat bs" and ?t = "run_tables c (arrivals_of (concat bs)) empty_tables"
  note judged = blocks_judged [OF assms(1) distinct_orderIDs assms(2), of c]
  note counts = judged_counts [OF judged(3,4,1) assms(2)]
  have "{x \<in> set (withDuplicates d ?xs). ge_Invalid x} = {x \<in> set ?xs. ge_Invalid x}"
    using arg_cong [where f = set, OF withDuplicates_flags(2) [of d ?xs]] by simp
  moreover have "int (card (dom (orders ?t))) = ps_UniqueOrderIDs summary"
    unfolding judged(2) using distinct_card [OF distinct_orderIDs [of "pc_Seed cfg" "ps_UniqueOrderIDs summary"]] assms(3)
    by simp
  ultimately show ?thesis
    unfolding run_withDuplicates tally_def using counts assms(4,5) by simp
qed

lemma withDuplicates_events: "ge_Event ` set (withDuplicates d xs) = ge_Event ` set xs"
  by (induction d xs rule: withDuplicates.induct) (auto simp: duplicateOf_def)

lemma blocks_valid:
  assumes "list_all2 (block cfg (eg_baseTime (startGenerator cfg source))) (map (orderIDOf seed) ns) bs"
    and "x \<in> set (concat bs)"
  shows "validateEvent (ge_Event x) = Inr (Payload (ge_Event x))"
proof -
  obtain i where "i < length bs" "x \<in> set (bs ! i)" using assms(2) by (metis UN_E in_set_conv_nth set_concat)
  with list_all2_nthD2 [OF assms(1)] list_all2_lengthD [OF assms(1)]
  have "block cfg (eg_baseTime (startGenerator cfg source)) (orderIDOf seed (ns ! i)) (bs ! i)" by auto
  then show ?thesis
    using \<open>x \<in> set (bs ! i)\<close> by (rule generated_valid) (simp add: orderIDOf_def)
qed

text \<open>
  C8: The producer's marks are the service's verdicts.  Take an accepted configuration with at
  most half of the total duplicates.  If the events of its run, which are all valid, can be
  stored and are processed in the order of emission on an available database with empty tables,
  every call succeeds, and in the end nothing is pending, the dead letters are exactly the
  events marked invalid, the history has one row for every other unique event, the out-of-order
  ones included, the duplicates have left no trace, and the numbers of dead letters, processed
  events and orders are those of the producer's summary.
\<close>

theorem marks_are_verdicts:
  fixes intn :: "nat \<Rightarrow> 'g \<Rightarrow> nat \<times> 'g" and db :: "'d dbTransaction"
  assumes "random_source intn" and "validateConfig cfg = None" and "pc_Total cfg < 2 ^ 53"
    and "2 * ratioCount (pc_Total cfg) (pc_DuplicateRatio cfg) \<le> pc_Total cfg"
    and "pg_available db c view committed in_tx available"
    and "available s" and "committed s = empty_tables"
  shows "\<exists>evs summary. runs_through (generate intn source cfg :: ('w, 'e) emitter \<Rightarrow> _) evs summary None \<and>
    ((\<forall>x \<in> set evs. event_storable c (ge_Event x) (Payload (ge_Event x))) \<longrightarrow>
      (\<exists>s'. process_all db (map ge_Event evs) s = Some s' \<and> tally evs summary (committed s')))"
proof -
  let ?base = "eg_baseTime (startGenerator cfg source)" and ?d = "nat (duplicateCount cfg)"
  obtain bs summary where run: "runs_through (generate intn source cfg :: ('w, 'e) emitter \<Rightarrow> _)
        (withDuplicates ?d (concat bs)) summary
        (if ps_TotalPublished summary = pc_Total cfg then None
         else Some (GeneratedCount (ps_TotalPublished summary) (pc_Total cfg)))"
      and xs: "int (length (concat bs)) = pc_Total cfg - duplicateCount cfg"
        "int (length (filter ge_Invalid (concat bs))) = invalidCount cfg"
        "distinct (map (EventID \<circ> ge_Event) (concat bs))"
      and sm: "ps_UniqueEventIDs summary = int (length (concat bs))"
        "ps_TotalPublished summary = int (length (concat bs)) + min (duplicateCount cfg) (int (length (concat bs)))"
        "ps_InvalidTransitionEvents summary = invalidCount cfg" "0 \<le> ps_UniqueOrderIDs summary"
      and bs: "list_all2 (block cfg ?base) (map (orderIDOf (pc_Seed cfg)) [1..ps_UniqueOrderIDs summary]) bs"
    using generate_runs [OF assms(1-3), of source] by blast
  let ?evs = "withDuplicates ?d (concat bs)"
  have "runs_through (generate intn source cfg :: ('w, 'e) emitter \<Rightarrow> _) ?evs summary None"
    using run sm(2) xs(1) assms(4) by (simp add: min_absorb1)
  moreover have "\<exists>s'. process_all db (map ge_Event ?evs) s = Some s' \<and> tally ?evs summary (committed s')"
    if storable: "\<forall>x \<in> set ?evs. event_storable c (ge_Event x) (Payload (ge_Event x))"
  proof -
    have "validateEvent ev = Inr (Payload ev)" if "ev \<in> ge_Event ` set ?evs" for ev
      using that blocks_valid [OF bs] unfolding withDuplicates_events by blast
    then obtain s' where s': "process_all db (map ge_Event ?evs) s = Some s'"
      using pg_available.process_all_succeeds [OF assms(5,6), of "map ge_Event ?evs"] storable assms(7)
      by (auto simp: consistent_empty)
    moreover have "committed s' = run_tables c (arrivals_of ?evs) empty_tables"
      using pg_session.process_all_tables(1) [OF pg_available.axioms(1) [OF assms(5)] s'] assms(7) by (simp add: comp_def)
    ultimately show ?thesis
      using run_tally [OF bs xs(3) sm(4,1)] sm(3) xs(2) by simp
  qed
  ultimately show ?thesis by blast
qed

section \<open>A run of the demonstration\<close>

text \<open>An emitter that collects shows that a run determines its events.\<close>

lemma emitAll_collect:
  "emitAll (\<lambda>x xs. (xs @ [x], None)) evs acc = (acc @ evs, None)"
  by (induction evs arbitrary: acc) simp_all

lemma runs_through_unique:
  fixes run :: "(generatedEvent list, 'e) emitter \<Rightarrow> _"
  assumes "runs_through run evs summary r" and "runs_through run evs' summary' r'"
  shows "evs = evs'"
  using assms [unfolded runs_through_def, rule_format, of "\<lambda>x xs. (xs @ [x], None)" "[]"]
  by (simp add: emitAll_collect)

lemma block_bound: "list_all2 (block cfg base) oids bs \<Longrightarrow> length oids \<le> length (concat bs)"
proof (induction rule: list_all2_induct)
  case (Cons oid oids b bs)
  from Cons.hyps(1) have "b \<noteq> []" by (auto simp: block_def scripts_def lifecycles_def)
  with Cons.IH show ?case by (cases b) auto
qed simp

lemma length_decimal: "length (decimal n) \<le> Suc n"
proof (induction n rule: decimal.induct)
  case (1 n)
  then show ?case by (cases "n < 10") (auto simp: decimal.simps [of n])
qed

definition tame_char :: "char \<Rightarrow> bool" where
  "tame_char ch \<longleftrightarrow> (0 :: nat) < of_char ch \<and> of_char ch < (128 :: nat) \<and> ch \<noteq> CHR 0x5C"

lemma digits_tame: "list_all tame_char (appendInt x w)"
proof -
  have "tame_char ch" if "is_digit ch" for ch
    using that by (auto simp: is_digit_def tame_char_def)
  then have "list_all tame_char (decimal n)" for n
    using decimal_digits(1) [of n] by (simp add: list_all_iff)
  moreover have "tame_char CHR ''0''" "tame_char CHR ''-''" by (simp_all add: tame_char_def)
  ultimately show ?thesis by (auto simp: appendInt_def Let_def list_all_iff)
qed

lemma sim_id_ok:
  assumes "0 \<le> n" and "n \<le> 1000"
  shows "text_ok sim_codec (eventIDOf 1 n)" and "text_ok sim_codec (orderIDOf 1 n)"
proof -
  have "length (appendInt n 9) \<le> 1010" using length_decimal [of "nat n"] assms by (simp add: appendInt_def Let_def)
  moreover have "length (appendInt 1 0) \<le> 2" using length_decimal [of 1] by (simp add: appendInt_def Let_def)
  moreover have "list_all (\<lambda>ch. (0 :: nat) < of_char ch \<and> of_char ch < (128 :: nat)) (appendInt x w)" for x w
    by (rule list.pred_mono_strong [OF digits_tame]) (simp add: tame_char_def)
  ultimately show "text_ok sim_codec (eventIDOf 1 n)" "text_ok sim_codec (orderIDOf 1 n)"
    by (simp_all add: sim_codec_def eventIDOf_def orderIDOf_def)
qed

lemma sim_payload_ok:
  assumes "isKnown st"
  shows "jsonb_ok sim_codec (marshalPayload seed n st)"
proof -
  have "CHR 0x5C \<notin> set (appendInt x 0)" for x
    using digits_tame [of x 0] by (auto simp: list_all_iff tame_char_def)
  with assms have "CHR 0x5C \<notin> set (marshalPayload seed n st)"
    by (auto simp: marshalPayload_def quoted_def isKnown_def status_defs)
  then show ?thesis
    by (auto simp: sim_codec_def dest: set_mono_sublist)
qed

lemma demo_run_storable:
  assumes "runs_through (generate lcg 1 (demo_producer (1 / 4)) :: (generatedEvent list, unit) emitter \<Rightarrow> _) evs summary None"
    and "x \<in> set evs"
  shows "event_storable sim_codec (ge_Event x) (Payload (ge_Event x))"
proof -
  let ?c = "demo_producer (1 / 4)"
  have sel: "pc_Total ?c = 8" "pc_DuplicateRatio ?c = Finite (1 / 4)" "pc_Seed ?c = 1"
    by (simp_all add: demo_producer_def)
  have small: "pc_Total ?c < 2 ^ 53" by (simp add: sel(1))
  obtain bs sm where run: "runs_through (generate lcg 1 ?c :: (generatedEvent list, unit) emitter \<Rightarrow> _)
        (withDuplicates (nat (duplicateCount ?c)) (concat bs)) sm
        (if ps_TotalPublished sm = pc_Total ?c then None
         else Some (GeneratedCount (ps_TotalPublished sm) (pc_Total ?c)))"
      and len: "int (length (concat bs)) = pc_Total ?c - duplicateCount ?c"
      and ids: "set (map (EventID \<circ> ge_Event) (concat bs)) = eventIDOf (pc_Seed ?c) ` {1..int (length (concat bs))}"
      and bs: "list_all2 (block ?c (eg_baseTime (startGenerator ?c (1 :: nat))))
        (map (orderIDOf (pc_Seed ?c)) [1..ps_UniqueOrderIDs sm]) bs"
    using generate_runs [OF lcg.random_source_axioms demo_producer_valid(1) small, where source = 1] by blast
  have len6: "length (concat bs) = 6" using len sel demo_counts by simp
  have "ge_Event x \<in> ge_Event ` set (concat bs)"
    using assms(2) runs_through_unique [OF assms(1) run] withDuplicates_events by blast
  then obtain y where y: "y \<in> set (concat bs)" "ge_Event x = ge_Event y" by auto
  then obtain i where i: "i < length bs" "y \<in> set (bs ! i)" by (metis UN_E in_set_conv_nth set_concat)
  let ?oid = "orderIDOf 1 (1 + int i)"
  have "i < 6" using i(1) block_bound [OF bs] list_all2_lengthD [OF bs] len6 by simp
  have blk: "block ?c (eg_baseTime (startGenerator ?c (1 :: nat))) ?oid (bs ! i)"
    using list_all2_nthD2 [OF bs i(1)] list_all2_lengthD [OF bs] i(1) sel(3) by (simp add: nth_upto)
  then have made: "made ?c (eg_baseTime (startGenerator ?c (1 :: nat))) ?oid y"
    using i(2) by (simp add: block_def list_all_iff)
  have "EventID (ge_Event y) \<in> eventIDOf 1 ` {1..6}"
    using ids y(1) len6 sel(3) by auto
  then have "text_ok sim_codec (EventID (ge_Event y))" by (auto simp: sim_id_ok(1))
  moreover have "text_ok sim_codec (OrderID (ge_Event y))"
    using made sim_id_ok(2) [of "1 + int i"] \<open>i < 6\<close> by (simp add: made_def)
  moreover have "tstz_ok sim_codec (Timestamp (ge_Event y))"
    using made_time [OF made] by (auto simp: sim_codec_def epoch_value)
  moreover have "jsonb_ok sim_codec (Payload (ge_Event y))"
    using made sim_payload_ok script_known [of "bs ! i" y] blk i(2) by (auto simp: made_def block_def)
  ultimately show ?thesis by (simp add: event_storable_def y(2))
qed

theorem marks_are_verdicts_witness:
  "\<exists>evs summary s'. runs_through (generate lcg 1 (demo_producer (1 / 4)) :: (generatedEvent list, unit) emitter \<Rightarrow> _)
       evs summary None \<and>
     process_all (pgsim sim_codec) (map ge_Event evs) demo_start = Some s' \<and> tally evs summary (sim_committed s')"
proof -
  have sel: "pc_Total (demo_producer (1 / 4)) = 8" "pc_DuplicateRatio (demo_producer (1 / 4)) = Finite (1 / 4)"
    by (simp_all add: demo_producer_def)
  have "sim_available demo_start" using demo_start_ok(1) by (simp add: demo_ok_def)
  from marks_are_verdicts [OF lcg.random_source_axioms demo_producer_valid(1) _ _ demo_available this demo_start_ok(2),
      where source = 1 and ?'w = "generatedEvent list" and ?'e = unit]
  show ?thesis unfolding sel demo_counts using demo_run_storable by fastforce
qed

end
